theory Spec2Isabelle
  imports Main
begin

section \<open>Values, exceptions and log entries\<close>

text \<open>
  The fetcher of \<^verbatim>\<open>data_fetcher.py\<close> downloads two kinds of pages per ticker, parses
  their tables into dictionaries and stores them through an ORM session. The embedding
  follows the Python text function by function. Everything the script obtains from a
  library is kept apart from the script's own code:
  \<^item> the conversions \<^verbatim>\<open>float\<close>, \<^verbatim>\<open>int\<close>, \<^verbatim>\<open>str.lower\<close>, \<^verbatim>\<open>dateutil.parser.parse\<close>,
    \<^verbatim>\<open>urlparse\<close>, \<^verbatim>\<open>parse_qs\<close> and the HTTP request are fields of a record \<open>pylib\<close> that
    every parser function takes as its first argument; a conversion returns \<open>None\<close> where
    the Python call raises \<^verbatim>\<open>ValueError\<close>;
  \<^item> a parsed page is a tree of tags and text, searched the way \<^verbatim>\<open>bs4\<close> searches it;
  \<^item> the relational store is a list of rows per table, checked on insert and update
    against the column types and the constraints that \<^verbatim>\<open>models.py\<close> declares;
  \<^item> the thread pool runs the submitted tasks one after the other, each to its end.
  Floating point numbers and dates are values of two type parameters \<open>'f\<close> and \<open>'d\<close>.
  A function that can raise returns a sum whose left side is the exception; a function
  that changes the session returns the new session, also when it raises.
\<close>

text \<open>
  A Python \<^verbatim>\<open>str\<close> is the list of its code points. The names that the script itself
  writes (keywords, attribute and column names, the parts of an address) are ASCII
  strings; \<open>lit\<close> reads one as a \<^verbatim>\<open>str\<close>.
\<close>

type_synonym str = "nat list"

definition lit :: "string \<Rightarrow> str" where
  "lit s = map of_char s"

datatype ('f, 'd) val =
    VNone
  | VInt int
  | VStr str
  | VFloat 'f
  | VDate 'd

text \<open>The keyword arguments of a tag search, as \<^verbatim>\<open>find_tag\<close> prints them in its error.\<close>

type_synonym kwargs = "(string \<times> string) list"

datatype violation =
    NotNullViolation string
  | UniqueViolation "string list"
  | ForeignKeyViolation string

text \<open>
  The exceptions, each with what its text shows of the call that raised it: an exception
  of \<^verbatim>\<open>requests\<close> shows the address requested and its parameters, a \<^verbatim>\<open>ParsingError\<close>
  the keywords of the search, an \<^verbatim>\<open>IntegrityError\<close> the constraint violated, a
  \<^verbatim>\<open>DataError\<close> the table and the parameters of the refused statement, of which the
  texts are kept.
\<close>

datatype error =
    ParsingError kwargs
  | RequestException str "(string \<times> int) list"
  | HTTPError nat str "(string \<times> int) list"
  | ValueError
  | AttributeError
  | KeyError string
  | IndexError
  | TypeError
  | IntegrityError violation
  | DataError string "(string \<times> str) list"

text \<open>
  What a task returns on success: the two f-strings of \<^verbatim>\<open>fetch_history\<close> and
  \<^verbatim>\<open>fetch_trades\<close>, kept as their arguments.
\<close>

datatype result_message =
    HistoryCollected nat str
  | TradesCollected nat str int

datatype log_entry =
    WarnRowSize nat nat "str list"
  | WarnDataFormat str "int option"
  | InfoFetching int
  | ErrorTaskFailed error
  | InfoTaskFinished result_message
  | InfoFinished

section \<open>Pages\<close>

datatype node =
    Text str
  | Tag str "(str \<times> str) list" "node list"

datatype response =
    NoResponse
  | Response nat node

record ('f, 'd) pylib =
  py_float :: "str \<Rightarrow> 'f option"
  py_int :: "str \<Rightarrow> int option"
  py_lower :: "str \<Rightarrow> str"
  date_parse :: "str \<Rightarrow> 'd option"
  urlparse_query :: "str \<Rightarrow> str option"
  parse_qs :: "str \<Rightarrow> (str \<times> str list) list"
  requests_get :: "str \<Rightarrow> (string \<times> int) list \<Rightarrow> response"

subsection \<open>Strings\<close>

text \<open>
  The code points that \<^verbatim>\<open>str.strip\<close> removes and at which \<^verbatim>\<open>bs4\<close> splits the value
  of a \<^verbatim>\<open>class\<close> attribute: those for which \<^verbatim>\<open>str.isspace\<close> holds, among them the
  no-break space \<^verbatim>\<open>U+00A0\<close>.
\<close>

definition is_space :: "nat \<Rightarrow> bool" where
  "is_space c =
     (c \<in> set [0x09, 0x0A, 0x0B, 0x0C, 0x0D, 0x1C, 0x1D, 0x1E, 0x1F, 0x20, 0x85, 0xA0,
                0x1680, 0x2000, 0x2001, 0x2002, 0x2003, 0x2004, 0x2005, 0x2006, 0x2007,
                0x2008, 0x2009, 0x200A, 0x2028, 0x2029, 0x202F, 0x205F, 0x3000])"

definition strip :: "str \<Rightarrow> str" where
  "strip s = rev (dropWhile is_space (rev (dropWhile is_space s)))"

text \<open>\<^verbatim>\<open>s.replace(',', '')\<close>\<close>

definition remove_commas :: "str \<Rightarrow> str" where
  "remove_commas s = filter (\<lambda>c. c \<noteq> of_char CHR '','') s"

text \<open>The maximal runs of non-blank characters: the values of a \<^verbatim>\<open>class\<close> attribute.\<close>

fun split_ws_acc :: "str \<Rightarrow> str \<Rightarrow> str list" where
  "split_ws_acc cur [] = (if cur = [] then [] else [rev cur])"
| "split_ws_acc cur (c # cs) =
     (if is_space c then (if cur = [] then [] else [rev cur]) @ split_ws_acc [] cs
      else split_ws_acc (c # cur) cs)"

definition split_ws :: "str \<Rightarrow> str list" where
  "split_ws s = split_ws_acc [] s"

subsection \<open>Searching a page\<close>

fun descendants :: "node \<Rightarrow> node list" where
  "descendants (Text s) = []"
| "descendants (Tag n a cs) = concat (map (\<lambda>c. c # descendants c) cs)"

fun get_text :: "node \<Rightarrow> str" where
  "get_text (Text s) = s"
| "get_text (Tag n a cs) = concat (map get_text cs)"

text \<open>\<^verbatim>\<open>tag.get(key, default)\<close>\<close>

fun tag_get :: "node \<Rightarrow> string \<Rightarrow> str \<Rightarrow> str" where
  "tag_get (Text s) k d = d"
| "tag_get (Tag n a cs) k d = (case map_of a (lit k) of None \<Rightarrow> d | Some v \<Rightarrow> v)"

text \<open>
  One keyword of a search against one tag: \<^verbatim>\<open>name\<close> is the tag's name, \<^verbatim>\<open>class_\<close>
  matches any one of the tag's classes, every other keyword is an attribute that must be
  present with that value.
\<close>

fun matches_kw :: "str \<Rightarrow> (str \<times> str) list \<Rightarrow> string \<times> string \<Rightarrow> bool" where
  "matches_kw n a (k, v) =
     (if k = ''name'' then n = lit v
      else if k = ''class_'' then
        (case map_of a (lit ''class'') of
           None \<Rightarrow> False
         | Some cl \<Rightarrow> lit v \<in> set (split_ws cl))
      else map_of a (lit k) = Some (lit v))"

fun matches :: "kwargs \<Rightarrow> node \<Rightarrow> bool" where
  "matches kw (Text s) = False"
| "matches kw (Tag n a cs) = list_all (matches_kw n a) kw"

text \<open>\<^verbatim>\<open>dom.find(**kwargs)\<close>: the first matching tag below \<open>el\<close>, in document order.\<close>

definition dom_find :: "node \<Rightarrow> kwargs \<Rightarrow> node option" where
  "dom_find el kw = List.find (matches kw) (descendants el)"

text \<open>\<^verbatim>\<open>dom.find_all(name)\<close> and \<^verbatim>\<open>dom.find_all(name, recursive=False)\<close>\<close>

fun node_children :: "node \<Rightarrow> node list" where
  "node_children (Text s) = []"
| "node_children (Tag n a cs) = cs"

definition find_all :: "node \<Rightarrow> string \<Rightarrow> bool \<Rightarrow> node list" where
  "find_all el n recursive =
     filter (matches [(''name'', n)]) (if recursive then descendants el else node_children el)"

section \<open>Parser\<close>

definition BASE_URL :: string where
  "BASE_URL = ''https://www.nasdaq.com''"

text \<open>
  \<^verbatim>\<open>requests.get\<close> fails or answers; \<^verbatim>\<open>raise_for_status\<close> raises on a status from 400
  to 599. The answer's text is already parsed.
\<close>

definition parse_page :: "('f, 'd) pylib \<Rightarrow> str \<Rightarrow> (string \<times> int) list \<Rightarrow> error + node" where
  "parse_page lib url params =
     (case requests_get lib url params of
        NoResponse \<Rightarrow> Inl (RequestException url params)
      | Response status page_dom \<Rightarrow>
          if 400 \<le> status \<and> status < 600 then Inl (HTTPError status url params)
          else Inr page_dom)"

definition find_tag :: "node \<Rightarrow> kwargs \<Rightarrow> error + node" where
  "find_tag el kw =
     (case dom_find el kw of
        None \<Rightarrow> Inl (ParsingError kw)
      | Some result \<Rightarrow> Inr result)"

definition parse_table :: "node \<Rightarrow> str list list" where
  "parse_table table_dom =
     map (\<lambda>row. map (\<lambda>col. strip (get_text col)) (find_all row ''td'' True))
       (find_all table_dom ''tr'' False)"

type_synonym ('f, 'd) pydict = "string \<rightharpoonup> ('f, 'd) val"

text \<open>
  The body of the \<^verbatim>\<open>try\<close> in the loop of \<^verbatim>\<open>parse_history\<close>: the dictionary of one row
  of six cells, or \<open>None\<close> when a conversion raises \<^verbatim>\<open>ValueError\<close>.
\<close>

definition history_item :: "('f, 'd) pylib \<Rightarrow> str list \<Rightarrow> ('f, 'd) pydict option" where
  "history_item lib row =
     Option.bind (date_parse lib (row ! 0)) (\<lambda>d.
     Option.bind (py_float lib (remove_commas (row ! 1))) (\<lambda>open_price.
     Option.bind (py_float lib (remove_commas (row ! 2))) (\<lambda>high_price.
     Option.bind (py_float lib (remove_commas (row ! 3))) (\<lambda>low_price.
     Option.bind (py_float lib (remove_commas (row ! 4))) (\<lambda>close_price.
     Option.bind (py_float lib (remove_commas (row ! 5))) (\<lambda>volume.
       Some (map_of
         [(''date'', VDate d),
          (''open_price'', VFloat open_price),
          (''high_price'', VFloat high_price),
          (''low_price'', VFloat low_price),
          (''close_price'', VFloat close_price),
          (''volume'', VFloat volume)])))))))"

text \<open>
  The loop over the table's rows, with the result list and the warnings logged so far.
\<close>

fun history_loop ::
  "('f, 'd) pylib \<Rightarrow> str \<Rightarrow> str list list \<Rightarrow>
   ('f, 'd) pydict list \<times> log_entry list \<Rightarrow> ('f, 'd) pydict list \<times> log_entry list" where
  "history_loop lib ticker [] (result, log) = (result, log)"
| "history_loop lib ticker (row # table) (result, log) =
     (if length row \<noteq> 6 then
        history_loop lib ticker table (result, log @ [WarnRowSize 6 (length row) row])
      else
        (case history_item lib row of
           Some item \<Rightarrow> history_loop lib ticker table (result @ [item], log)
         | None \<Rightarrow> history_loop lib ticker table (result, log @ [WarnDataFormat ticker None])))"

text \<open>
  \<^verbatim>\<open>parse_history\<close>. The \<^verbatim>\<open>tbody\<close> is looked up with \<^verbatim>\<open>find\<close>, not \<^verbatim>\<open>find_tag\<close>: where
  it is missing, \<^verbatim>\<open>parse_table\<close> calls \<^verbatim>\<open>find_all\<close> on \<^verbatim>\<open>None\<close>.
\<close>

definition parse_history ::
  "('f, 'd) pylib \<Rightarrow> str \<Rightarrow> error + (('f, 'd) pydict list \<times> log_entry list)" where
  "parse_history lib ticker =
     (case parse_page lib
             (lit BASE_URL @ lit ''/symbol/'' @ py_lower lib ticker @ lit ''/historical'') [] of
        Inl e \<Rightarrow> Inl e
      | Inr page_dom \<Rightarrow>
     (case find_tag page_dom [(''name'', ''div''), (''id'', ''quotes_content_left_pnlAJAX'')] of
        Inl e \<Rightarrow> Inl e
      | Inr div_dom \<Rightarrow>
     (case find_tag div_dom [(''name'', ''table'')] of
        Inl e \<Rightarrow> Inl e
      | Inr table \<Rightarrow>
     (case dom_find table [(''name'', ''tbody'')] of
        None \<Rightarrow> Inl AttributeError
      | Some table_dom \<Rightarrow>
          Inr (history_loop lib ticker (parse_table table_dom) ([], []))))))"

text \<open>
  \<^verbatim>\<open>parse_trades_page_count\<close>: the \<^verbatim>\<open>page\<close> parameter of the last-page link's address,
  \<^verbatim>\<open>'1'\<close> where the address has none; the first value is converted with \<^verbatim>\<open>int\<close>.
  Indexing an empty list of values with \<^verbatim>\<open>[0]\<close> raises \<^verbatim>\<open>IndexError\<close>.
\<close>

definition parse_trades_page_count :: "('f, 'd) pylib \<Rightarrow> node \<Rightarrow> error + int" where
  "parse_trades_page_count lib page_dom =
     (case find_tag page_dom [(''id'', ''quotes_content_left_lb_LastPage'')] of
        Inl e \<Rightarrow> Inl e
      | Inr last_page_dom \<Rightarrow>
     (case urlparse_query lib (tag_get last_page_dom ''href'' []) of
        None \<Rightarrow> Inl ValueError
      | Some query \<Rightarrow>
     (case (case map_of (parse_qs lib query) (lit ''page'') of
              None \<Rightarrow> [lit ''1'']
            | Some vs \<Rightarrow> vs) of
        [] \<Rightarrow> Inl IndexError
      | v # _ \<Rightarrow>
     (case py_int lib v of
        None \<Rightarrow> Inl ValueError
      | Some n \<Rightarrow> Inr n))))"

text \<open>The body of the \<^verbatim>\<open>try\<close> in the loop of \<^verbatim>\<open>parse_trades\<close>, for a row of eight cells.\<close>

definition trade_item :: "('f, 'd) pylib \<Rightarrow> str list \<Rightarrow> ('f, 'd) pydict option" where
  "trade_item lib row =
     Option.bind (date_parse lib (row ! 2)) (\<lambda>last_date.
     Option.bind (py_float lib (remove_commas (row ! 5))) (\<lambda>shares_traded.
     Option.bind (if row ! 6 \<noteq> [] then map_option VFloat (py_float lib (row ! 6))
                  else Some VNone) (\<lambda>last_price.
     Option.bind (py_float lib (remove_commas (row ! 7))) (\<lambda>shares_hold.
       Some (map_of
         [(''insider'', VStr (row ! 0)),
          (''relation'', VStr (row ! 1)),
          (''last_date'', VDate last_date),
          (''transaction_type'', VStr (row ! 3)),
          (''owner_type'', VStr (row ! 4)),
          (''shares_traded'', VFloat shares_traded),
          (''last_price'', last_price),
          (''shares_hold'', VFloat shares_hold)])))))"

fun trades_loop ::
  "('f, 'd) pylib \<Rightarrow> str \<Rightarrow> int \<Rightarrow> str list list \<Rightarrow>
   ('f, 'd) pydict list \<times> log_entry list \<Rightarrow> ('f, 'd) pydict list \<times> log_entry list" where
  "trades_loop lib ticker page [] (result, log) = (result, log)"
| "trades_loop lib ticker page (row # table) (result, log) =
     (if length row \<noteq> 8 then
        trades_loop lib ticker page table (result, log @ [WarnRowSize 8 (length row) row])
      else
        (case trade_item lib row of
           Some item \<Rightarrow> trades_loop lib ticker page table (result @ [item], log)
         | None \<Rightarrow>
             trades_loop lib ticker page table (result, log @ [WarnDataFormat ticker (Some page)])))"

definition parse_trades ::
  "('f, 'd) pylib \<Rightarrow> str \<Rightarrow> int \<Rightarrow> error + (('f, 'd) pydict list \<times> log_entry list)" where
  "parse_trades lib ticker page =
     (case parse_page lib
             (lit BASE_URL @ lit ''/symbol/'' @ py_lower lib ticker @ lit ''/insider-trades'')
             [(''page'', page)] of
        Inl e \<Rightarrow> Inl e
      | Inr page_dom \<Rightarrow>
     (case parse_trades_page_count lib page_dom of
        Inl e \<Rightarrow> Inl e
      | Inr page_count \<Rightarrow>
          if page \<le> page_count then
            (case find_tag page_dom [(''name'', ''div''), (''class_'', ''genTable'')] of
               Inl e \<Rightarrow> Inl e
             | Inr div_dom \<Rightarrow>
            (case find_tag div_dom [(''name'', ''table'')] of
               Inl e \<Rightarrow> Inl e
             | Inr table_dom \<Rightarrow>
                 Inr (trades_loop lib ticker page (parse_table table_dom) ([], []))))
          else Inr ([], [])))"


section \<open>The store\<close>

text \<open>
  A table is the list of its rows and a row maps column names to values. The store checks
  what \<^verbatim>\<open>models.py\<close> declares: the type of each column, the primary key \<^verbatim>\<open>id\<close>,
  \<^verbatim>\<open>nullable=False\<close>, \<^verbatim>\<open>unique=True\<close> and \<^verbatim>\<open>UniqueConstraint\<close>, and \<^verbatim>\<open>ForeignKey\<close>.
  A value that its column's type refuses is what the ORM raises as \<^verbatim>\<open>DataError\<close>, a
  violated constraint what it raises as \<^verbatim>\<open>IntegrityError\<close>.
\<close>

datatype coltype =
    ColInteger
  | ColString nat
  | ColFloat
  | ColDate
  | ColEnum "string list"

type_synonym ('f, 'd) row = "('f, 'd) pydict"

type_synonym ('f, 'd) db = "string \<Rightarrow> ('f, 'd) row list"

record model =
  tablename :: string
  columns :: "string list"
  column_types :: "(string \<times> coltype) list"
  not_null :: "string list"
  uniques :: "string list list"
  foreign_keys :: "(string \<times> string) list"

text \<open>
  The four models, column by column. \<^verbatim>\<open>Enum(OwnerType)\<close> is the enumeration of the names
  \<^verbatim>\<open>direct\<close> and \<^verbatim>\<open>indirect\<close>.
\<close>

definition Stock :: model where
  "Stock = \<lparr>tablename = ''stock'',
            columns = [''id'', ''ticker''],
            column_types = [(''id'', ColInteger), (''ticker'', ColString 5)],
            not_null = [''ticker''],
            uniques = [[''ticker'']],
            foreign_keys = []\<rparr>"

definition Quote :: model where
  "Quote = \<lparr>tablename = ''quote'',
            columns = [''id'', ''stock_id'', ''date'', ''open_price'', ''close_price'',
                       ''high_price'', ''low_price'', ''volume''],
            column_types = [(''id'', ColInteger), (''stock_id'', ColInteger), (''date'', ColDate),
                            (''open_price'', ColFloat), (''close_price'', ColFloat),
                            (''high_price'', ColFloat), (''low_price'', ColFloat),
                            (''volume'', ColFloat)],
            not_null = [''stock_id'', ''date'', ''open_price'', ''close_price'',
                        ''high_price'', ''low_price'', ''volume''],
            uniques = [[''stock_id'', ''date'']],
            foreign_keys = [(''stock_id'', ''stock'')]\<rparr>"

definition Insider :: model where
  "Insider = \<lparr>tablename = ''insider'',
              columns = [''id'', ''name'', ''relation''],
              column_types = [(''id'', ColInteger), (''name'', ColString 100),
                              (''relation'', ColString 50)],
              not_null = [''name'', ''relation''],
              uniques = [[''name'']],
              foreign_keys = []\<rparr>"

definition Trade :: model where
  "Trade = \<lparr>tablename = ''trade'',
            columns = [''id'', ''stock_id'', ''insider_id'', ''transaction_type'', ''owner_type'',
                       ''last_date'', ''shares_traded'', ''last_price'', ''shares_hold''],
            column_types = [(''id'', ColInteger), (''stock_id'', ColInteger),
                            (''insider_id'', ColInteger), (''transaction_type'', ColString 100),
                            (''owner_type'', ColEnum [''direct'', ''indirect'']),
                            (''last_date'', ColDate), (''shares_traded'', ColInteger),
                            (''last_price'', ColFloat), (''shares_hold'', ColInteger)],
            not_null = [''stock_id'', ''insider_id'', ''transaction_type'', ''owner_type'',
                        ''last_date'', ''shares_traded'', ''shares_hold''],
            uniques = [],
            foreign_keys = [(''stock_id'', ''stock''), (''insider_id'', ''insider'')]\<rparr>"

text \<open>Reading an attribute of an instance: a column that was never set reads \<^verbatim>\<open>None\<close>.\<close>

definition attr :: "('f, 'd) pydict \<Rightarrow> string \<Rightarrow> ('f, 'd) val" where
  "attr r k = (case r k of None \<Rightarrow> VNone | Some v \<Rightarrow> v)"

text \<open>
  What the calls on the session did, in order: a ghost record of the statements, kept to
  state in which order a task touches the store.
\<close>

datatype ('f, 'd) event =
    EvInsert string "('f, 'd) row"
  | EvInsertFailed string "('f, 'd) row" violation
  | EvInsertRefused string "('f, 'd) row"
  | EvRollback
  | EvQuery string "(string \<times> ('f, 'd) val) list" "('f, 'd) row option"
  | EvUpdate string "('f, 'd) row"
  | EvUpdateFailed string "('f, 'd) row" violation
  | EvUpdateRefused string "('f, 'd) row"
  | EvCommit

text \<open>
  A session sees the store through its transaction: \<open>working\<close> is what its statements
  read and write, \<open>committed\<close> is what the store holds. \<open>integer_cast\<close> is the
  database's conversion of a floating point number to an \<^verbatim>\<open>INTEGER\<close> column: whether the
  number, rounded, is in the column's range.
\<close>

record ('f, 'd) session =
  committed :: "('f, 'd) db"
  working :: "('f, 'd) db"
  trace :: "('f, 'd) event list"
  integer_cast :: "'f \<Rightarrow> bool"

subsection \<open>Column types\<close>

text \<open>
  What the database refuses to store in a column: a text longer than the length of a
  \<^verbatim>\<open>String\<close> column, a text that is no name of the enumeration of an \<^verbatim>\<open>Enum\<close> column,
  and a floating point number that does not convert to an \<^verbatim>\<open>INTEGER\<close> column. These are
  the kinds of value that the tasks send to such columns; \<^verbatim>\<open>None\<close> is left to the
  not-null check, and the keys that the \<^verbatim>\<open>id\<close> sequence hands out are not bounded.
  Of a text that is too long only by blanks at its end the database cuts the excess off
  and stores the rest, where \<open>fits\<close> refuses it: the two agree on every text that ends
  in no blank, as the texts of stripped cells and of stripped ticker lines do, and what
  is proved of a refusal is stated for such texts.
\<close>

fun fits :: "('f \<Rightarrow> bool) \<Rightarrow> coltype \<Rightarrow> ('f, 'd) val \<Rightarrow> bool" where
  "fits cast (ColString n) (VStr s) = (length s \<le> n)"
| "fits cast (ColEnum names) (VStr s) = (s \<in> set (map lit names))"
| "fits cast ColInteger (VFloat x) = cast x"
| "fits cast t v = True"

definition check_types ::
  "('f \<Rightarrow> bool) \<Rightarrow> (string \<times> coltype) list \<Rightarrow> ('f, 'd) row \<Rightarrow> bool" where
  "check_types cast types new = list_all (\<lambda>ct. fits cast (snd ct) (attr new (fst ct))) types"

text \<open>The parameters of a statement that are texts, as the exception's text shows them.\<close>

definition text_params :: "string list \<Rightarrow> ('f, 'd) row \<Rightarrow> (string \<times> str) list" where
  "text_params cols new =
     List.map_filter (\<lambda>c. case attr new c of VStr s \<Rightarrow> Some (c, s) | _ \<Rightarrow> None) cols"

subsection \<open>Constraints\<close>

definition check_not_null :: "string list \<Rightarrow> ('f, 'd) row \<Rightarrow> violation option" where
  "check_not_null cols new =
     map_option NotNullViolation (List.find (\<lambda>c. attr new c = VNone) cols)"

text \<open>Nulls never collide in a unique index.\<close>

definition conflicts :: "string list \<Rightarrow> ('f, 'd) row \<Rightarrow> ('f, 'd) row \<Rightarrow> bool" where
  "conflicts cols new other =
     list_all (\<lambda>c. attr new c \<noteq> VNone \<and> attr other c = attr new c) cols"

definition check_unique ::
  "string list list \<Rightarrow> ('f, 'd) row list \<Rightarrow> ('f, 'd) row \<Rightarrow> violation option" where
  "check_unique ucs others new =
     map_option UniqueViolation (List.find (\<lambda>cols. list_ex (conflicts cols new) others) ucs)"

definition check_foreign_keys ::
  "('f, 'd) db \<Rightarrow> (string \<times> string) list \<Rightarrow> ('f, 'd) row \<Rightarrow> violation option" where
  "check_foreign_keys d fks new =
     map_option (\<lambda>fk. ForeignKeyViolation (fst fk))
       (List.find (\<lambda>fk. attr new (fst fk) \<noteq> VNone \<and>
                        \<not> list_ex (\<lambda>r. attr r ''id'' = attr new (fst fk)) (d (snd fk))) fks)"

text \<open>
  The checks of the constraints in the order the database makes them, once the values have
  their column's type: not-null columns, then the unique indexes (the primary key first),
  then the foreign keys.
\<close>

definition check_row ::
  "('f, 'd) db \<Rightarrow> string list \<Rightarrow> string list list \<Rightarrow> (string \<times> string) list \<Rightarrow>
   ('f, 'd) row list \<Rightarrow> ('f, 'd) row \<Rightarrow> violation option" where
  "check_row d nn ucs fks others new =
     (case check_not_null nn new of
        Some v \<Rightarrow> Some v
      | None \<Rightarrow>
     (case check_unique ucs others new of
        Some v \<Rightarrow> Some v
      | None \<Rightarrow> check_foreign_keys d fks new))"

definition check_insert ::
  "('f, 'd) db \<Rightarrow> model \<Rightarrow> ('f, 'd) row \<Rightarrow> violation option" where
  "check_insert d m new =
     check_row d (''id'' # not_null m) ([''id''] # uniques m) (foreign_keys m)
       (d (tablename m)) new"

text \<open>An \<^verbatim>\<open>UPDATE\<close> writes the changed columns only, and only they are checked again.\<close>

definition changed :: "('f, 'd) row \<Rightarrow> ('f, 'd) row \<Rightarrow> string \<Rightarrow> bool" where
  "changed old new c = (attr old c \<noteq> attr new c)"

definition check_update ::
  "('f, 'd) db \<Rightarrow> model \<Rightarrow> ('f, 'd) row list \<Rightarrow> ('f, 'd) row \<Rightarrow> ('f, 'd) row \<Rightarrow>
   violation option" where
  "check_update d m others old new =
     check_row d
       (filter (changed old new) (''id'' # not_null m))
       (filter (list_ex (changed old new)) ([''id''] # uniques m))
       (filter (\<lambda>fk. changed old new (fst fk)) (foreign_keys m))
       others new"

subsection \<open>Session calls\<close>

text \<open>The next value of the \<^verbatim>\<open>id\<close> sequence: above every \<^verbatim>\<open>id\<close> of the table.\<close>

definition next_id :: "('f, 'd) row list \<Rightarrow> int" where
  "next_id rows =
     fold (\<lambda>r n. case attr r ''id'' of VInt i \<Rightarrow> max n (i + 1) | _ \<Rightarrow> n) rows 1"

text \<open>
  \<^verbatim>\<open>model(**data)\<close>: a keyword that is not an attribute of the model raises
  \<^verbatim>\<open>TypeError\<close>; the columns not given read \<^verbatim>\<open>None\<close>.
\<close>

definition construct :: "model \<Rightarrow> ('f, 'd) pydict \<Rightarrow> error + ('f, 'd) row" where
  "construct m data =
     (if dom data \<subseteq> set (columns m)
      then Inr (\<lambda>c. if c \<in> set (columns m) then Some (attr data c) else None)
      else Inl TypeError)"

text \<open>
  \<^verbatim>\<open>session.add(instance)\<close> and the flush that sends its \<^verbatim>\<open>INSERT\<close>: the values are
  converted to their column's type before any constraint is checked.
\<close>

definition session_insert ::
  "('f, 'd) session \<Rightarrow> model \<Rightarrow> ('f, 'd) row \<Rightarrow> ('f, 'd) session \<times> (error + ('f, 'd) row)" where
  "session_insert s m inst =
     (let rows = working s (tablename m);
          new = (if attr inst ''id'' = VNone then inst(''id'' \<mapsto> VInt (next_id rows)) else inst)
      in if \<not> check_types (integer_cast s) (column_types m) new then
           (s\<lparr>trace := trace s @ [EvInsertRefused (tablename m) new]\<rparr>,
            Inl (DataError (tablename m) (text_params (columns m) new)))
         else
           (case check_insert (working s) m new of
              Some v \<Rightarrow>
                (s\<lparr>trace := trace s @ [EvInsertFailed (tablename m) new v]\<rparr>,
                 Inl (IntegrityError v))
            | None \<Rightarrow>
                (s\<lparr>working := (working s)(tablename m := rows @ [new]),
                   trace := trace s @ [EvInsert (tablename m) new]\<rparr>, Inr new)))"

definition session_rollback :: "('f, 'd) session \<Rightarrow> ('f, 'd) session" where
  "session_rollback s = s\<lparr>working := committed s, trace := trace s @ [EvRollback]\<rparr>"

definition session_commit :: "('f, 'd) session \<Rightarrow> ('f, 'd) session" where
  "session_commit s = s\<lparr>committed := working s, trace := trace s @ [EvCommit]\<rparr>"

text \<open>\<^verbatim>\<open>filter_by(**key_fields)\<close> on one row.\<close>

definition filter_by :: "(string \<times> ('f, 'd) val) list \<Rightarrow> ('f, 'd) row \<Rightarrow> bool" where
  "filter_by key_fields r = list_all (\<lambda>kv. attr r (fst kv) = snd kv) key_fields"

text \<open>
  \<^verbatim>\<open>session.query(model).filter_by(**key_fields).first()\<close>: the first matching row of
  the table with its position, or \<^verbatim>\<open>None\<close>.
\<close>

definition query_first ::
  "('f, 'd) session \<Rightarrow> model \<Rightarrow> (string \<times> ('f, 'd) val) list \<Rightarrow>
   ('f, 'd) session \<times> (nat \<times> ('f, 'd) row) option" where
  "query_first s m key_fields =
     (let found = List.find (\<lambda>ir. filter_by key_fields (snd ir))
                    (enumerate 0 (working s (tablename m)))
      in (s\<lparr>trace := trace s @ [EvQuery (tablename m) key_fields (map_option snd found)]\<rparr>,
          found))"

text \<open>
  The flush of an instance whose attributes were set: the row at position \<open>i\<close> becomes
  \<open>new\<close>; its changed columns are converted and checked against the other rows of its
  table.
\<close>

definition session_update ::
  "('f, 'd) session \<Rightarrow> model \<Rightarrow> nat \<Rightarrow> ('f, 'd) row \<Rightarrow>
   ('f, 'd) session \<times> (error + ('f, 'd) row)" where
  "session_update s m i new =
     (let rows = working s (tablename m);
          others = take i rows @ drop (Suc i) rows
      in if \<not> check_types (integer_cast s)
                (filter (\<lambda>ct. changed (rows ! i) new (fst ct)) (column_types m)) new then
           (s\<lparr>trace := trace s @ [EvUpdateRefused (tablename m) new]\<rparr>,
            Inl (DataError (tablename m)
                   (text_params (filter (changed (rows ! i) new) (columns m)) new)))
         else
           (case check_update (working s) m others (rows ! i) new of
              Some v \<Rightarrow>
                (s\<lparr>trace := trace s @ [EvUpdateFailed (tablename m) new v]\<rparr>,
                 Inl (IntegrityError v))
            | None \<Rightarrow>
                (s\<lparr>working := (working s)(tablename m := rows[i := new]),
                   trace := trace s @ [EvUpdate (tablename m) new]\<rparr>, Inr new)))"

section \<open>Fetcher\<close>

record fetcher =
  max_workers :: int
  max_trades_pages :: int

text \<open>
  \<^verbatim>\<open>Fetcher.__init__\<close>: \<^verbatim>\<open>ThreadPoolExecutor(max_workers)\<close> raises \<^verbatim>\<open>ValueError\<close> unless
  \<^verbatim>\<open>max_workers\<close> is positive.
\<close>

definition Fetcher_init :: "int \<Rightarrow> int \<Rightarrow> error + fetcher" where
  "Fetcher_init mw mp =
     (if mw \<le> 0 then Inl ValueError else Inr \<lparr>max_workers = mw, max_trades_pages = mp\<rparr>)"

subsection \<open>upsert\<close>

text \<open>\<^verbatim>\<open>{key: data[key] for key in keys}\<close>\<close>

definition key_fields_of ::
  "('f, 'd) pydict \<Rightarrow> string list \<Rightarrow> error + (string \<times> ('f, 'd) val) list" where
  "key_fields_of data keys =
     (case List.find (\<lambda>key. data key = None) keys of
        Some key \<Rightarrow> Inl (KeyError key)
      | None \<Rightarrow> Inr (map (\<lambda>key. (key, attr data key)) keys))"

text \<open>
  \<^verbatim>\<open>upsert\<close>. Only \<^verbatim>\<open>IntegrityError\<close> is caught: any other exception of the flush
  leaves \<^verbatim>\<open>upsert\<close>. After an \<^verbatim>\<open>IntegrityError\<close> the looked-up instance is used as it comes:
  on \<^verbatim>\<open>None\<close> the first \<^verbatim>\<open>setattr\<close> raises \<^verbatim>\<open>AttributeError\<close>, and with no item in
  \<open>data\<close> the loop does nothing and \<^verbatim>\<open>None\<close> is returned. The loop of \<^verbatim>\<open>setattr\<close> on a row
  \<open>r\<close> gives \<open>r ++ data\<close>; the final \<^verbatim>\<open>commit\<close> flushes it.
\<close>

definition upsert ::
  "('f, 'd) session \<Rightarrow> model \<Rightarrow> ('f, 'd) pydict \<Rightarrow> string list \<Rightarrow>
   ('f, 'd) session \<times> (error + ('f, 'd) row option)" where
  "upsert s m data keys =
     (case key_fields_of data keys of
        Inl e \<Rightarrow> (s, Inl e)
      | Inr key_fields \<Rightarrow>
     (case construct m data of
        Inl e \<Rightarrow> (s, Inl e)
      | Inr inst \<Rightarrow>
     (case session_insert s m inst of
        (s1, Inr new) \<Rightarrow> (session_commit s1, Inr (Some new))
      | (s1, Inl (IntegrityError v)) \<Rightarrow>
          (case query_first (session_rollback s1) m key_fields of
             (s2, None) \<Rightarrow>
               if data = Map.empty then (session_commit s2, Inr None)
               else (s2, Inl AttributeError)
           | (s2, Some (i, r)) \<Rightarrow>
               (case session_update s2 m i (r ++ data) of
                  (s3, Inl e) \<Rightarrow> (s3, Inl e)
                | (s3, Inr r') \<Rightarrow> (session_commit s3, Inr (Some r'))))
      | (s1, Inl e) \<Rightarrow> (s1, Inl e))))"

subsection \<open>Tasks\<close>

text \<open>\<^verbatim>\<open>instance.id\<close> of what \<^verbatim>\<open>upsert\<close> returned.\<close>

definition instance_id :: "('f, 'd) row option \<Rightarrow> error + ('f, 'd) val" where
  "instance_id inst = (case inst of None \<Rightarrow> Inl AttributeError | Some r \<Rightarrow> Inr (attr r ''id''))"

text \<open>The loop of \<^verbatim>\<open>fetch_history\<close> over the parsed items.\<close>

fun quotes_loop ::
  "('f, 'd) session \<Rightarrow> ('f, 'd) row option \<Rightarrow> ('f, 'd) pydict list \<Rightarrow>
   ('f, 'd) session \<times> (error + unit)" where
  "quotes_loop s stock [] = (s, Inr ())"
| "quotes_loop s stock (item # history) =
     (case instance_id stock of
        Inl e \<Rightarrow> (s, Inl e)
      | Inr stock_id \<Rightarrow>
     (case upsert s Quote (item(''stock_id'' \<mapsto> stock_id)) [''date'', ''stock_id''] of
        (s1, Inl e) \<Rightarrow> (s1, Inl e)
      | (s1, Inr quote) \<Rightarrow> quotes_loop s1 stock history))"

definition fetch_history ::
  "('f, 'd) pylib \<Rightarrow> ('f, 'd) session \<Rightarrow> str \<Rightarrow>
   ('f, 'd) session \<times> log_entry list \<times> (error + result_message)" where
  "fetch_history lib s ticker =
     (case parse_history lib ticker of
        Inl e \<Rightarrow> (s, [], Inl e)
      | Inr (history, warnings) \<Rightarrow>
     (case (case upsert s Stock (map_of [(''ticker'', VStr ticker)]) [''ticker''] of
              (s1, Inl e) \<Rightarrow> (s1, Inl e)
            | (s1, Inr stock) \<Rightarrow> quotes_loop s1 stock history) of
        (s2, Inl e) \<Rightarrow> (session_rollback s2, warnings, Inl e)
      | (s2, Inr u) \<Rightarrow> (s2, warnings, Inr (HistoryCollected (length history) ticker))))"

text \<open>\<^verbatim>\<open>trade.pop(key)\<close>\<close>

definition dict_pop ::
  "('f, 'd) pydict \<Rightarrow> string \<Rightarrow> error + (('f, 'd) val \<times> ('f, 'd) pydict)" where
  "dict_pop d k = (case d k of None \<Rightarrow> Inl (KeyError k) | Some v \<Rightarrow> Inr (v, d(k := None)))"

text \<open>
  \<^verbatim>\<open>models.Trade(stock_id=stock.id, insider_id=insider.id, **trade)\<close>: a keyword given
  twice is a \<^verbatim>\<open>TypeError\<close>.
\<close>

definition new_trade ::
  "('f, 'd) val \<Rightarrow> ('f, 'd) val \<Rightarrow> ('f, 'd) pydict \<Rightarrow> error + ('f, 'd) row" where
  "new_trade stock_id insider_id trade =
     (if trade ''stock_id'' \<noteq> None \<or> trade ''insider_id'' \<noteq> None then Inl TypeError
      else construct Trade (trade(''stock_id'' \<mapsto> stock_id, ''insider_id'' \<mapsto> insider_id)))"

text \<open>The body of the loop of \<^verbatim>\<open>fetch_trades\<close> for one parsed trade.\<close>

definition store_trade ::
  "('f, 'd) session \<Rightarrow> ('f, 'd) row option \<Rightarrow> ('f, 'd) pydict \<Rightarrow>
   ('f, 'd) session \<times> (error + unit)" where
  "store_trade s stock trade =
     (case dict_pop trade ''insider'' of
        Inl e \<Rightarrow> (s, Inl e)
      | Inr (name, trade1) \<Rightarrow>
     (case dict_pop trade1 ''relation'' of
        Inl e \<Rightarrow> (s, Inl e)
      | Inr (relation, trade2) \<Rightarrow>
     (case upsert s Insider (map_of [(''name'', name), (''relation'', relation)]) [''name''] of
        (s1, Inl e) \<Rightarrow> (s1, Inl e)
      | (s1, Inr insider) \<Rightarrow>
     (case instance_id stock of
        Inl e \<Rightarrow> (s1, Inl e)
      | Inr stock_id \<Rightarrow>
     (case instance_id insider of
        Inl e \<Rightarrow> (s1, Inl e)
      | Inr insider_id \<Rightarrow>
     (case new_trade stock_id insider_id trade2 of
        Inl e \<Rightarrow> (s1, Inl e)
      | Inr inst \<Rightarrow>
     (case session_insert s1 Trade inst of
        (s2, Inl e) \<Rightarrow> (s2, Inl e)
      | (s2, Inr new) \<Rightarrow> (session_commit s2, Inr ()))))))))"

fun trades_store_loop ::
  "('f, 'd) session \<Rightarrow> ('f, 'd) row option \<Rightarrow> ('f, 'd) pydict list \<Rightarrow>
   ('f, 'd) session \<times> (error + unit)" where
  "trades_store_loop s stock [] = (s, Inr ())"
| "trades_store_loop s stock (trade # trades) =
     (case store_trade s stock trade of
        (s1, Inl e) \<Rightarrow> (s1, Inl e)
      | (s1, Inr u) \<Rightarrow> trades_store_loop s1 stock trades)"

definition fetch_trades ::
  "('f, 'd) pylib \<Rightarrow> ('f, 'd) session \<Rightarrow> str \<Rightarrow> int \<Rightarrow>
   ('f, 'd) session \<times> log_entry list \<times> (error + result_message)" where
  "fetch_trades lib s ticker page =
     (case parse_trades lib ticker page of
        Inl e \<Rightarrow> (s, [], Inl e)
      | Inr (trades, warnings) \<Rightarrow>
     (case (case upsert s Stock (map_of [(''ticker'', VStr ticker)]) [''ticker''] of
              (s1, Inl e) \<Rightarrow> (s1, Inl e)
            | (s1, Inr stock) \<Rightarrow> trades_store_loop s1 stock trades) of
        (s2, Inl e) \<Rightarrow> (session_rollback s2, warnings, Inl e)
      | (s2, Inr u) \<Rightarrow> (s2, warnings, Inr (TradesCollected (length trades) ticker page))))"

subsection \<open>fetch\<close>

datatype task =
    HistoryTask str
  | TradesTask str int

text \<open>\<^verbatim>\<open>range(n)\<close>\<close>

definition py_range :: "int \<Rightarrow> int list" where
  "py_range n = [0..n - 1]"

text \<open>The first loop of \<^verbatim>\<open>fetch\<close>: the tasks in the order they are submitted.\<close>

definition submitted :: "fetcher \<Rightarrow> str list \<Rightarrow> task list" where
  "submitted f tickers =
     concat (map (\<lambda>ticker.
       HistoryTask ticker #
       map (\<lambda>page. TradesTask ticker (page + 1)) (py_range (max_trades_pages f))) tickers)"

fun run_task ::
  "('f, 'd) pylib \<Rightarrow> ('f, 'd) session \<Rightarrow> task \<Rightarrow>
   ('f, 'd) session \<times> log_entry list \<times> (error + result_message)" where
  "run_task lib s (HistoryTask ticker) = fetch_history lib s ticker"
| "run_task lib s (TradesTask ticker page) = fetch_trades lib s ticker page"

text \<open>
  The executor runs every submitted task to its end. The tasks are run here one after the
  other in the order of submission, against the one store; each future holds its task's
  exception or its result.
\<close>

fun run_tasks ::
  "('f, 'd) pylib \<Rightarrow> ('f, 'd) session \<Rightarrow> task list \<Rightarrow>
   ('f, 'd) session \<times> log_entry list \<times> (error + result_message) list" where
  "run_tasks lib s [] = (s, [], [])"
| "run_tasks lib s (t # ts) =
     (case run_task lib s t of (s1, warnings, future) \<Rightarrow>
      case run_tasks lib s1 ts of (s2, warnings', futures) \<Rightarrow>
        (s2, warnings @ warnings', future # futures))"

text \<open>The second loop of \<^verbatim>\<open>fetch\<close>: one line per future.\<close>

definition log_future :: "error + result_message \<Rightarrow> log_entry" where
  "log_future future =
     (case future of
        Inl e \<Rightarrow> ErrorTaskFailed e
      | Inr result \<Rightarrow> InfoTaskFinished result)"

definition fetch ::
  "('f, 'd) pylib \<Rightarrow> fetcher \<Rightarrow> ('f, 'd) session \<Rightarrow> str list \<Rightarrow>
   ('f, 'd) session \<times> log_entry list" where
  "fetch lib f s tickers =
     (case run_tasks lib s (submitted f tickers) of (s1, warnings, futures) \<Rightarrow>
        (s1, [InfoFetching (max_workers f)] @ warnings @ map log_future futures @ [InfoFinished]))"

section \<open>Test data\<close>

text \<open>
  A stand-in for the library, used where a statement is evaluated on a concrete page:
  numbers and dates are kept as their text, a number is a non-empty run of digits and
  dots, a date is any non-empty text, only the letters A to Z have a lower case, the
  query of an address is what follows its first question mark and holds at most one
  parameter. Every request is answered with the one page given. A number converts to an
  \<^verbatim>\<open>INTEGER\<close> column when its text has at most nine characters.
\<close>

definition numeral_text :: "str \<Rightarrow> bool" where
  "numeral_text s = (s \<noteq> [] \<and> list_all (\<lambda>c. c \<in> set (lit ''0123456789.'')) s)"

definition example_lower :: "str \<Rightarrow> str" where
  "example_lower s = map (\<lambda>c. if 65 \<le> c \<and> c \<le> 90 then c + 32 else c) s"

definition example_lib :: "node \<Rightarrow> (str, str) pylib" where
  "example_lib page =
     \<lparr>py_float = (\<lambda>s. if numeral_text s then Some s else None),
      py_int = (\<lambda>s. if s = lit ''1'' then Some 1 else if s = lit ''7'' then Some 7 else None),
      py_lower = example_lower,
      date_parse = (\<lambda>s. if s = [] then None else Some s),
      urlparse_query = (\<lambda>u. Some (drop 1 (dropWhile (\<lambda>c. c \<noteq> of_char CHR ''?'') u))),
      parse_qs = (\<lambda>q. if q = [] then []
                       else [(takeWhile (\<lambda>c. c \<noteq> of_char CHR ''='') q,
                              [drop 1 (dropWhile (\<lambda>c. c \<noteq> of_char CHR ''='') q)])]),
      requests_get = (\<lambda>u p. Response 200 page)\<rparr>"

definition example_cast :: "str \<Rightarrow> bool" where
  "example_cast x = (length x \<le> 9)"


definition example_history_page :: node where
  "example_history_page = Tag (lit ''[document]'') []
     [Tag (lit ''div'') [(lit ''id'', lit ''quotes_content_left_pnlAJAX'')]
        [Tag (lit ''table'') []
           [Tag (lit ''tbody'') []
              [Tag (lit ''tr'') []
                 [Tag (lit ''td'') [] [Text (lit '' 01/02/2019 '')],
                  Tag (lit ''td'') [] [Text (lit ''1,000.5'')],
                  Tag (lit ''td'') [] [Text (lit ''2'')], Tag (lit ''td'') [] [Text (lit ''3'')],
                  Tag (lit ''td'') [] [Text (lit ''4'')],
                  Tag (lit ''td'') [] [Text (lit ''5,000,000'')]],
               Tag (lit ''tr'') [] [Tag (lit ''td'') [] [Text (lit ''x'')]],
               Tag (lit ''tr'') []
                 [Tag (lit ''td'') [] [Text (lit ''01/03/2019'')],
                  Tag (lit ''td'') [] [Text (lit ''abc'')],
                  Tag (lit ''td'') [] [Text (lit ''2'')], Tag (lit ''td'') [] [Text (lit ''3'')],
                  Tag (lit ''td'') [] [Text (lit ''4'')],
                  Tag (lit ''td'') [] [Text (lit ''5'')]]]]]]"

definition example_trade_row :: "str list" where
  "example_trade_row =
     [lit ''COOK TIMOTHY D'', lit ''Officer'', lit ''04/03/2019'', lit ''Sell'', lit ''direct'',
      lit ''1,500'', [], lit ''878,425'']"

text \<open>
  A trades page whose last-page link has the given address. Its table has one row of
  eight cells, whose last-price cell holds a no-break space.
\<close>

definition example_trades_page :: "string \<Rightarrow> node" where
  "example_trades_page href = Tag (lit ''[document]'') []
     [Tag (lit ''a'') [(lit ''id'', lit ''quotes_content_left_lb_LastPage''), (lit ''href'', lit href)]
        [Text (lit ''last'')],
      Tag (lit ''div'') [(lit ''class'', lit ''genTable wide'')]
        [Tag (lit ''table'') []
           [Tag (lit ''tr'') [] [Tag (lit ''th'') [] [Text (lit ''Insider'')]],
            Tag (lit ''tr'') []
              [Tag (lit ''td'') [] [Tag (lit ''a'') [] [Text (lit ''COOK TIMOTHY D'')]],
               Tag (lit ''td'') [] [Text (lit ''Officer'')],
               Tag (lit ''td'') [] [Text (lit ''04/03/2019'')],
               Tag (lit ''td'') [] [Text (lit ''Sell'')],
               Tag (lit ''td'') [] [Text (lit ''direct'')],
               Tag (lit ''td'') [] [Text (lit ''1,500'')],
               Tag (lit ''td'') [] [Text [0xA0]],
               Tag (lit ''td'') [] [Text (lit ''878,425'')]]]]]"

text \<open>A session on an empty store, and the session after one insider was stored.\<close>

definition empty_session :: "(str, str) session" where
  "empty_session =
     \<lparr>committed = (\<lambda>t. []), working = (\<lambda>t. []), trace = [], integer_cast = example_cast\<rparr>"

definition example_insider :: "string \<Rightarrow> (str, str) pydict" where
  "example_insider relation =
     map_of [(''name'', VStr (lit ''COOK TIMOTHY D'')), (''relation'', VStr (lit relation))]"

definition example_session :: "(str, str) session" where
  "example_session = fst (upsert empty_session Insider (example_insider ''Officer'') [''name''])"

text \<open>A session that sees a stored insider its transaction has not committed.\<close>

definition uncommitted_session :: "(str, str) session" where
  "uncommitted_session =
     \<lparr>committed = (\<lambda>t. []), working = working example_session, trace = [],
      integer_cast = example_cast\<rparr>"


definition example_fetcher :: fetcher where
  "example_fetcher = \<lparr>max_workers = 2, max_trades_pages = 2\<rparr>"


section \<open>Notions used in the statements\<close>

text \<open>
  Every stored stock and insider has an integer as its primary key, and the session has
  no uncommitted change: what holds of the store whenever a task starts.
\<close>

definition is_key :: "('f, 'd) val \<Rightarrow> bool" where
  "is_key v = (case v of VInt i \<Rightarrow> True | _ \<Rightarrow> False)"

definition ids_ok :: "('f, 'd) row list \<Rightarrow> bool" where
  "ids_ok rows = list_all (\<lambda>r. is_key (attr r ''id'')) rows"

definition store_ok :: "('f, 'd) session \<Rightarrow> bool" where
  "store_ok s =
     (working s = committed s \<and> ids_ok (committed s ''stock'') \<and> ids_ok (committed s ''insider''))"

text \<open>
  The \<^verbatim>\<open>DataError\<close> with which the database refuses the values of \<open>data\<close> for the
  columns of a model, if it refuses them; for a parsed trade, that of its insider or else
  that of the trade itself.
\<close>

definition refusal :: "('f \<Rightarrow> bool) \<Rightarrow> model \<Rightarrow> ('f, 'd) pydict \<Rightarrow> error option" where
  "refusal cast m data =
     (if check_types cast (column_types m) data then None
      else Some (DataError (tablename m) (text_params (columns m) data)))"

definition trade_refusal :: "('f \<Rightarrow> bool) \<Rightarrow> ('f, 'd) pydict \<Rightarrow> error option" where
  "trade_refusal cast trade =
     (case refusal cast Insider
             (map_of [(''name'', attr trade ''insider''), (''relation'', attr trade ''relation'')]) of
        Some e \<Rightarrow> Some e
      | None \<Rightarrow> refusal cast Trade trade)"

text \<open>
  What a task reports, read off the pages of its own ticker alone: the exception of the
  parser, or else the first refusal of a value that the task sends to the store, or else
  the result message.
\<close>

fun task_outcome :: "('f, 'd) pylib \<Rightarrow> ('f \<Rightarrow> bool) \<Rightarrow> task \<Rightarrow> error + result_message" where
  "task_outcome lib cast (HistoryTask ticker) =
     (case parse_history lib ticker of
        Inl e \<Rightarrow> Inl e
      | Inr (history, warnings) \<Rightarrow>
          (case refusal cast Stock (map_of [(''ticker'', VStr ticker)] :: ('f, 'd) pydict) of
             Some e \<Rightarrow> Inl e
           | None \<Rightarrow> Inr (HistoryCollected (length history) ticker)))"
| "task_outcome lib cast (TradesTask ticker page) =
     (case parse_trades lib ticker page of
        Inl e \<Rightarrow> Inl e
      | Inr (trades, warnings) \<Rightarrow>
          (case refusal cast Stock (map_of [(''ticker'', VStr ticker)] :: ('f, 'd) pydict) of
             Some e \<Rightarrow> Inl e
           | None \<Rightarrow>
               (case List.map_filter (trade_refusal cast) trades of
                  e # _ \<Rightarrow> Inl e
                | [] \<Rightarrow> Inr (TradesCollected (length trades) ticker page))))"

text \<open>
  The session in which the task at position \<open>i\<close> of a list of tasks starts: the given one
  after the tasks before it have run.
\<close>

definition started_in ::
  "('f, 'd) pylib \<Rightarrow> ('f, 'd) session \<Rightarrow> task list \<Rightarrow> nat \<Rightarrow> ('f, 'd) session" where
  "started_in lib s ts i = foldl (\<lambda>s' t. fst (run_task lib s' t)) s (take i ts)"

subsection \<open>Reading the trace of a session\<close>

text \<open>The row that an event sends to a table, and the row that an event has stored.\<close>

fun written :: "('f, 'd) event \<Rightarrow> (string \<times> ('f, 'd) row) option" where
  "written (EvInsert t r) = Some (t, r)"
| "written (EvInsertFailed t r v) = Some (t, r)"
| "written (EvInsertRefused t r) = Some (t, r)"
| "written (EvUpdate t r) = Some (t, r)"
| "written (EvUpdateFailed t r v) = Some (t, r)"
| "written (EvUpdateRefused t r) = Some (t, r)"
| "written EvRollback = None"
| "written (EvQuery t kf r) = None"
| "written EvCommit = None"

fun stored :: "('f, 'd) event \<Rightarrow> (string \<times> ('f, 'd) row) option" where
  "stored (EvInsert t r) = Some (t, r)"
| "stored (EvUpdate t r) = Some (t, r)"
| "stored (EvInsertFailed t r v) = None"
| "stored (EvInsertRefused t r) = None"
| "stored (EvUpdateFailed t r v) = None"
| "stored (EvUpdateRefused t r) = None"
| "stored EvRollback = None"
| "stored (EvQuery t kf r) = None"
| "stored EvCommit = None"

text \<open>The keys of the rows of table \<open>parent\<close> that the events have stored.\<close>

definition stored_ids :: "string \<Rightarrow> ('f, 'd) event list \<Rightarrow> ('f, 'd) val list" where
  "stored_ids parent tr =
     List.map_filter (\<lambda>e. case stored e of
                             None \<Rightarrow> None
                           | Some (t, p) \<Rightarrow> if t = parent then Some (attr p ''id'') else None) tr"

text \<open>
  Every row sent to table \<open>child\<close> refers in column \<open>col\<close> to a key that is known
  beforehand or was stored in \<open>parent\<close> by an earlier event of the trace.
\<close>

definition refs_known ::
  "('f, 'd) val list \<Rightarrow> string \<Rightarrow> string \<Rightarrow> string \<Rightarrow> ('f, 'd) event list \<Rightarrow> bool" where
  "refs_known known child col parent tr =
     (\<forall>j < length tr. \<forall>w. written (tr ! j) = Some (child, w) \<longrightarrow>
        attr w col \<in> set (known @ stored_ids parent (take j tr)))"

definition stored_before ::
  "string \<Rightarrow> string \<Rightarrow> string \<Rightarrow> ('f, 'd) event list \<Rightarrow> bool" where
  "stored_before child col parent tr = refs_known [] child col parent tr"

text \<open>The keys a trade may refer to from the start: the key of the stock of the task.\<close>

definition known_id :: "('f, 'd) row option \<Rightarrow> ('f, 'd) val list" where
  "known_id inst = (case inst of None \<Rightarrow> [] | Some r \<Rightarrow> [attr r ''id''])"


section \<open>The parser\<close>

subsection \<open>History rows\<close>

text \<open>The loop only ever appends to its two accumulators.\<close>

lemma history_loop_acc:
  "history_loop lib ticker table (result, log) =
     (result @ List.map_filter (\<lambda>row. if length row = 6 then history_item lib row else None) table,
      log @ concat (map (\<lambda>row. if length row \<noteq> 6 then [WarnRowSize 6 (length row) row]
                                 else if history_item lib row = None then [WarnDataFormat ticker None]
                                 else []) table))"
proof (induction table arbitrary: result log)
  case Nil
  show ?case by simp
next
  case (Cons row table)
  show ?case
  proof (cases "length row = 6")
    case False
    then show ?thesis using Cons by simp
  next
    case True
    then show ?thesis using Cons
      by (cases "history_item lib row") simp_all
  qed
qed



lemma parse_history_loop:
  assumes "parse_history lib ticker = Inr (res, log)"
  shows "\<exists>table. history_loop lib ticker table ([], []) = (res, log)"
  using assms
  by (auto simp: parse_history_def split: sum.splits option.splits)





subsection \<open>Trade rows\<close>

lemma trades_loop_acc:
  "trades_loop lib ticker page table (result, log) =
     (result @ List.map_filter (\<lambda>row. if length row = 8 then trade_item lib row else None) table,
      log @ concat (map (\<lambda>row. if length row \<noteq> 8 then [WarnRowSize 8 (length row) row]
                                 else if trade_item lib row = None
                                 then [WarnDataFormat ticker (Some page)]
                                 else []) table))"
proof (induction table arbitrary: result log)
  case Nil
  show ?case by simp
next
  case (Cons row table)
  show ?case
  proof (cases "length row = 8")
    case False
    then show ?thesis using Cons by simp
  next
    case True
    then show ?thesis using Cons
      by (cases "trade_item lib row") simp_all
  qed
qed

lemma set_map_filter: "set (List.map_filter f xs) = {y. \<exists>x \<in> set xs. f x = Some y}"
  by (induction xs) (auto split: option.splits)

lemma trade_item_empty_price:
  assumes "row ! 6 = []" "date_parse lib (row ! 2) = Some d"
    "py_float lib (remove_commas (row ! 5)) = Some st"
    "py_float lib (remove_commas (row ! 7)) = Some sh"
  shows "trade_item lib row =
     Some (map_of
         [(''insider'', VStr (row ! 0)),
          (''relation'', VStr (row ! 1)),
          (''last_date'', VDate d),
          (''transaction_type'', VStr (row ! 3)),
          (''owner_type'', VStr (row ! 4)),
          (''shares_traded'', VFloat st),
          (''last_price'', VNone),
          (''shares_hold'', VFloat sh)])"
  using assms by (simp add: trade_item_def)

lemma parse_trades_within:
  assumes "parse_page lib
              (lit BASE_URL @ lit ''/symbol/'' @ py_lower lib ticker @ lit ''/insider-trades'')
             [(''page'', page)] = Inr page_dom"
    and "parse_trades_page_count lib page_dom = Inr n" and "page \<le> n"
    and "find_tag page_dom [(''name'', ''div''), (''class_'', ''genTable'')] = Inr div_dom"
    and "find_tag div_dom [(''name'', ''table'')] = Inr table_dom"
  shows "parse_trades lib ticker page =
           Inr (trades_loop lib ticker page (parse_table table_dom) ([], []))"
  using assms by (simp add: parse_trades_def)

text \<open>
  C8. A row of eight cells whose last-price cell is empty, and whose date and two share
  counts convert, gives a record with \<^verbatim>\<open>last_price\<close> set to \<^verbatim>\<open>None\<close>: not a number, and
  not a failed row. The record is in the result of the loop, and in the result of
  \<^verbatim>\<open>parse_trades\<close> for every page within the page count whose table holds the row.
\<close>

theorem empty_last_price_is_none:
  fixes lib :: "('f, 'd) pylib"
  shows "length row = 8 \<and> row ! 6 = [] \<and> date_parse lib (row ! 2) = Some d
     \<and> py_float lib (remove_commas (row ! 5)) = Some st
     \<and> py_float lib (remove_commas (row ! 7)) = Some sh \<longrightarrow>
   (\<exists>item. trade_item lib row = Some item
      \<and> item ''last_price'' = Some VNone
      \<and> (\<forall>x. item ''last_price'' \<noteq> Some (VFloat x))
      \<and> item ''shares_traded'' = Some (VFloat st)
      \<and> item ''shares_hold'' = Some (VFloat sh)
      \<and> (row \<in> set table \<longrightarrow> item \<in> set (fst (trades_loop lib ticker page table ([], []))))
      \<and> (\<forall>page_dom n div_dom table_dom.
            parse_page lib
              (lit BASE_URL @ lit ''/symbol/'' @ py_lower lib ticker @ lit ''/insider-trades'')
              [(''page'', page)] = Inr page_dom
          \<and> parse_trades_page_count lib page_dom = Inr n \<and> page \<le> n
          \<and> find_tag page_dom [(''name'', ''div''), (''class_'', ''genTable'')] = Inr div_dom
          \<and> find_tag div_dom [(''name'', ''table'')] = Inr table_dom
          \<and> row \<in> set (parse_table table_dom) \<longrightarrow>
            (\<exists>res log. parse_trades lib ticker page = Inr (res, log) \<and> item \<in> set res)))"
proof (intro impI, elim conjE)
  assume len: "length row = 8" and e: "row ! 6 = []"
    and d: "date_parse lib (row ! 2) = Some d"
    and st: "py_float lib (remove_commas (row ! 5)) = Some st"
    and sh: "py_float lib (remove_commas (row ! 7)) = Some sh"
  define item where "item = map_of
         [(''insider'', VStr (row ! 0)),
          (''relation'', VStr (row ! 1)),
          (''last_date'', VDate d),
          (''transaction_type'', VStr (row ! 3)),
          (''owner_type'', VStr (row ! 4)),
          (''shares_traded'', VFloat st),
          (''last_price'', (VNone :: ('f, 'd) val)),
          (''shares_hold'', VFloat sh)]"
  have it: "trade_item lib row = Some item"
    unfolding item_def by (rule trade_item_empty_price [OF e d st sh])
  have inloop: "item \<in> set (fst (trades_loop lib ticker page tbl ([], [])))"
    if "row \<in> set tbl" for tbl
    using that len it by (auto simp: trades_loop_acc set_map_filter)
  have top: "\<exists>res log. parse_trades lib ticker page = Inr (res, log) \<and> item \<in> set res"
    if "parse_page lib
              (lit BASE_URL @ lit ''/symbol/'' @ py_lower lib ticker @ lit ''/insider-trades'')
              [(''page'', page)] = Inr page_dom"
      "parse_trades_page_count lib page_dom = Inr n" "page \<le> n"
      "find_tag page_dom [(''name'', ''div''), (''class_'', ''genTable'')] = Inr div_dom"
      "find_tag div_dom [(''name'', ''table'')] = Inr table_dom"
      "row \<in> set (parse_table table_dom)"
    for page_dom n div_dom table_dom
  proof -
    have "parse_trades lib ticker page =
           Inr (trades_loop lib ticker page (parse_table table_dom) ([], []))"
      using that(1-5) by (rule parse_trades_within)
    moreover have "item \<in> set (fst (trades_loop lib ticker page (parse_table table_dom) ([], [])))"
      using that(6) by (rule inloop)
    ultimately show ?thesis
      by (metis prod.collapse)
  qed
  have f1: "item ''last_price'' = Some VNone" by (simp add: item_def)
  have f2: "item ''shares_traded'' = Some (VFloat st)" by (simp add: item_def)
  have f3: "item ''shares_hold'' = Some (VFloat sh)" by (simp add: item_def)
  show "\<exists>item. trade_item lib row = Some item
      \<and> item ''last_price'' = Some VNone
      \<and> (\<forall>x. item ''last_price'' \<noteq> Some (VFloat x))
      \<and> item ''shares_traded'' = Some (VFloat st)
      \<and> item ''shares_hold'' = Some (VFloat sh)
      \<and> (row \<in> set table \<longrightarrow> item \<in> set (fst (trades_loop lib ticker page table ([], []))))
      \<and> (\<forall>page_dom n div_dom table_dom.
            parse_page lib
              (lit BASE_URL @ lit ''/symbol/'' @ py_lower lib ticker @ lit ''/insider-trades'')
              [(''page'', page)] = Inr page_dom
          \<and> parse_trades_page_count lib page_dom = Inr n \<and> page \<le> n
          \<and> find_tag page_dom [(''name'', ''div''), (''class_'', ''genTable'')] = Inr div_dom
          \<and> find_tag div_dom [(''name'', ''table'')] = Inr table_dom
          \<and> row \<in> set (parse_table table_dom) \<longrightarrow>
            (\<exists>res log. parse_trades lib ticker page = Inr (res, log) \<and> item \<in> set res))"
    using it f1 f2 f3 inloop top by (intro exI [of _ item]) auto
qed

lemma example_trades_table:
  "find_tag (example_trades_page href) [(''name'', ''div''), (''class_'', ''genTable'')] = Inr d
   \<Longrightarrow> find_tag d [(''name'', ''table'')] = Inr t
   \<Longrightarrow> parse_table t = [[], example_trade_row]"
  by (auto simp: example_trades_page_def find_tag_def dom_find_def split_ws_def is_space_def
      parse_table_def find_all_def strip_def example_trade_row_def lit_def)

lemma example_page_count:
  "parse_trades_page_count (example_lib p) (example_trades_page ''/symbol/aapl/insider-trades?page=7'') = Inr 7"
  by (simp add: parse_trades_page_count_def find_tag_def dom_find_def example_trades_page_def
      example_lib_def lit_def)

theorem empty_last_price_is_none_witness:
  "\<exists>res log item.
     parse_trades (example_lib (example_trades_page ''/symbol/aapl/insider-trades?page=7''))
       (lit ''AAPL'') 2 = Inr (res, log)
   \<and> item \<in> set res \<and> item ''last_price'' = Some VNone
   \<and> item ''shares_traded'' = Some (VFloat (lit ''1500''))"
proof -
  let ?page = "example_trades_page ''/symbol/aapl/insider-trades?page=7''"
  let ?lib = "example_lib ?page"
  obtain dv where dv: "find_tag ?page [(''name'', ''div''), (''class_'', ''genTable'')] = Inr dv"
    by (simp add: example_trades_page_def find_tag_def dom_find_def split_ws_def is_space_def
        lit_def)
  obtain tb where tb: "find_tag dv [(''name'', ''table'')] = Inr tb"
    using dv
    by (auto simp: example_trades_page_def find_tag_def dom_find_def split_ws_def is_space_def
        lit_def)
  have rows: "parse_table tb = [[], example_trade_row]"
    using dv tb by (rule example_trades_table)
  have pg: "parse_page ?lib
              (lit BASE_URL @ lit ''/symbol/'' @ py_lower ?lib (lit ''AAPL'') @ lit ''/insider-trades'')
              [(''page'', 2)] = Inr ?page"
    by (simp add: parse_page_def example_lib_def)
  have h: "length example_trade_row = 8 \<and> example_trade_row ! 6 = []
     \<and> date_parse ?lib (example_trade_row ! 2) = Some (lit ''04/03/2019'')
     \<and> py_float ?lib (remove_commas (example_trade_row ! 5)) = Some (lit ''1500'')
     \<and> py_float ?lib (remove_commas (example_trade_row ! 7)) = Some (lit ''878425'')"
    by (simp add: example_trade_row_def example_lib_def remove_commas_def numeral_text_def
        lit_def)
  from empty_last_price_is_none [of example_trade_row ?lib "lit ''04/03/2019''" "lit ''1500''"
      "lit ''878425''" "[]" "lit ''AAPL''" 2] h
  obtain item where it: "item ''last_price'' = Some VNone"
      "item ''shares_traded'' = Some (VFloat (lit ''1500''))"
    and top: "\<And>page_dom n div_dom table_dom.
            parse_page ?lib
              (lit BASE_URL @ lit ''/symbol/'' @ py_lower ?lib (lit ''AAPL'') @ lit ''/insider-trades'')
              [(''page'', 2)] = Inr page_dom
          \<Longrightarrow> parse_trades_page_count ?lib page_dom = Inr n \<Longrightarrow> 2 \<le> n
          \<Longrightarrow> find_tag page_dom [(''name'', ''div''), (''class_'', ''genTable'')] = Inr div_dom
          \<Longrightarrow> find_tag div_dom [(''name'', ''table'')] = Inr table_dom
          \<Longrightarrow> example_trade_row \<in> set (parse_table table_dom) \<Longrightarrow>
            (\<exists>res log. parse_trades ?lib (lit ''AAPL'') 2 = Inr (res, log) \<and> item \<in> set res)"
    by blast
  have "\<exists>res log. parse_trades ?lib (lit ''AAPL'') 2 = Inr (res, log) \<and> item \<in> set res"
    by (rule top [OF pg example_page_count _ dv tb]) (simp_all add: rows)
  then show ?thesis using it by blast
qed

subsection \<open>The page count\<close>




lemma parse_trades_beyond:
  assumes "parse_page lib
              (lit BASE_URL @ lit ''/symbol/'' @ py_lower lib ticker @ lit ''/insider-trades'')
             [(''page'', page)] = Inr page_dom"
    and "parse_trades_page_count lib page_dom = Inr n" and "n < page"
  shows "parse_trades lib ticker page = Inr ([], [])"
  using assms by (simp add: parse_trades_def)


section \<open>The store and upsert\<close>

subsection \<open>Fresh identifiers\<close>

lemma fold_next_id_ge:
  "n \<le> fold (\<lambda>r n. case attr r ''id'' of VInt i \<Rightarrow> max n (i + 1) | _ \<Rightarrow> n) rows n"
proof (induction rows arbitrary: n)
  case Nil
  show ?case by simp
next
  case (Cons r rows)
  show ?case
  proof (cases "attr r ''id''")
    case (VInt i)
    have "max n (i + 1) \<le> fold (\<lambda>r n. case attr r ''id'' of VInt i \<Rightarrow> max n (i + 1) | _ \<Rightarrow> n)
        rows (max n (i + 1))"
      by (rule Cons.IH)
    then show ?thesis using VInt by simp
  qed (use Cons.IH [of n] in simp_all)
qed

lemma fold_next_id_bound:
  "r \<in> set rows \<Longrightarrow> attr r ''id'' = VInt i \<Longrightarrow>
   i < fold (\<lambda>r n. case attr r ''id'' of VInt i \<Rightarrow> max n (i + 1) | _ \<Rightarrow> n) rows n"
proof (induction rows arbitrary: n)
  case Nil
  then show ?case by simp
next
  case (Cons a rows)
  show ?case
  proof (cases "r = a")
    case True
    have "max n (i + 1) \<le> fold (\<lambda>r n. case attr r ''id'' of VInt i \<Rightarrow> max n (i + 1) | _ \<Rightarrow> n)
        rows (max n (i + 1))"
      by (rule fold_next_id_ge)
    then show ?thesis using True Cons.prems(2) by simp
  next
    case False
    then have "r \<in> set rows" using Cons.prems(1) by simp
    then show ?thesis using Cons.IH Cons.prems(2) by simp
  qed
qed

lemma next_id_fresh: "r \<in> set rows \<Longrightarrow> attr r ''id'' \<noteq> VInt (next_id rows)"
  using fold_next_id_bound [of r rows "next_id rows" 1] by (auto simp: next_id_def)

subsection \<open>What the session calls return\<close>

lemma session_insert_Inr:
  assumes "session_insert s m inst = (s1, Inr new)"
  shows "new = (if attr inst ''id'' = VNone
                then inst(''id'' \<mapsto> VInt (next_id (working s (tablename m)))) else inst)"
    and "check_insert (working s) m new = None"
    and "s1 = s\<lparr>working := (working s)(tablename m := working s (tablename m) @ [new]),
                 trace := trace s @ [EvInsert (tablename m) new]\<rparr>"
    and "check_types (integer_cast s) (column_types m) new"
  using assms by (auto simp: session_insert_def Let_def split: option.splits if_splits)

lemma session_insert_Inl:
  assumes "session_insert s m inst = (s1, Inl (IntegrityError v))"
  shows "\<exists>new. new = (if attr inst ''id'' = VNone
                  then inst(''id'' \<mapsto> VInt (next_id (working s (tablename m)))) else inst)
         \<and> check_insert (working s) m new = Some v
         \<and> s1 = s\<lparr>trace := trace s @ [EvInsertFailed (tablename m) new v]\<rparr>
         \<and> check_types (integer_cast s) (column_types m) new"
  using assms by (auto simp: session_insert_def Let_def split: option.splits if_splits)

text \<open>An insert that the database refuses leaves the session as it was.\<close>

lemma session_insert_refused:
  assumes "session_insert s m inst = (s1, Inl e)" and "\<forall>v. e \<noteq> IntegrityError v"
  shows "\<exists>new. new = (if attr inst ''id'' = VNone
                  then inst(''id'' \<mapsto> VInt (next_id (working s (tablename m)))) else inst)
         \<and> e = DataError (tablename m) (text_params (columns m) new)
         \<and> \<not> check_types (integer_cast s) (column_types m) new
         \<and> s1 = s\<lparr>trace := trace s @ [EvInsertRefused (tablename m) new]\<rparr>"
  using assms by (auto simp: session_insert_def Let_def split: option.splits if_splits)

lemma session_insert_result:
  "(\<exists>new. snd (session_insert s m inst) = Inr new)
   \<or> (\<exists>v. snd (session_insert s m inst) = Inl (IntegrityError v))
   \<or> (\<exists>t p. snd (session_insert s m inst) = Inl (DataError t p))"
  by (simp add: session_insert_def Let_def split: option.splits)

lemma session_insert_cases:
  obtains (ok) s1 new where "session_insert s m inst = (s1, Inr new)"
  | (failed) s1 v where "session_insert s m inst = (s1, Inl (IntegrityError v))"
  | (refused) s1 t p where "session_insert s m inst = (s1, Inl (DataError t p))"
  using session_insert_result [of s m inst] by (metis prod.collapse)

lemma upsert_refused:
  assumes "key_fields_of data keys = Inr key_fields" and "construct m data = Inr inst"
    and "session_insert s m inst = (s1, Inl (DataError t p))"
  shows "upsert s m data keys = (s1, Inl (DataError t p))"
  using assms by (simp add: upsert_def)

lemma upsert_inserted:
  assumes "key_fields_of data keys = Inr key_fields" and "construct m data = Inr inst"
    and "session_insert s m inst = (s1, Inr new)"
  shows "upsert s m data keys = (session_commit s1, Inr (Some new))"
  using assms by (simp add: upsert_def)

lemma upsert_conflict:
  assumes "key_fields_of data keys = Inr key_fields" and "construct m data = Inr inst"
    and "session_insert s m inst = (s1, Inl (IntegrityError v))"
  shows "upsert s m data keys =
          (case query_first (session_rollback s1) m key_fields of
             (s2, None) \<Rightarrow>
               if data = Map.empty then (session_commit s2, Inr None)
               else (s2, Inl AttributeError)
           | (s2, Some (i, r)) \<Rightarrow>
               (case session_update s2 m i (r ++ data) of
                  (s3, Inl e) \<Rightarrow> (s3, Inl e)
                | (s3, Inr r') \<Rightarrow> (session_commit s3, Inr (Some r'))))"
  using assms by (simp add: upsert_def)

subsection \<open>Looking a row up\<close>

lemma find_enumerate_Some:
  assumes "List.find (\<lambda>ir. P (snd ir)) (enumerate n xs) = Some (i, r)"
  shows "n \<le> i \<and> i - n < length xs \<and> xs ! (i - n) = r \<and> P r"
  using assms
proof (induction xs arbitrary: n)
  case Nil
  then show ?case by simp
next
  case (Cons x xs)
  show ?case
  proof (cases "P x")
    case True
    then show ?thesis using Cons.prems by auto
  next
    case False
    then have "List.find (\<lambda>ir. P (snd ir)) (enumerate (Suc n) xs) = Some (i, r)"
      using Cons.prems by simp
    from Cons.IH [OF this] show ?thesis
      by (auto simp: Suc_diff_le simp flip: Suc_diff_Suc)
  qed
qed

lemma find_enumerate_None:
  "List.find (\<lambda>ir. P (snd ir)) (enumerate n xs) = None \<longleftrightarrow> \<not> list_ex P xs"
  by (induction xs arbitrary: n) auto

lemma query_first_Some:
  assumes "query_first s m key_fields = (s2, Some (i, r))"
  shows "i < length (working s (tablename m))" and "working s (tablename m) ! i = r"
    and "filter_by key_fields r"
    and "s2 = s\<lparr>trace := trace s @ [EvQuery (tablename m) key_fields (Some r)]\<rparr>"
  using assms find_enumerate_Some [of "filter_by key_fields" 0 "working s (tablename m)" i r]
  by (auto simp: query_first_def Let_def)

lemma query_first_None:
  assumes "query_first s m key_fields = (s2, None)"
  shows "\<not> list_ex (filter_by key_fields) (working s (tablename m))"
    and "s2 = s\<lparr>trace := trace s @ [EvQuery (tablename m) key_fields None]\<rparr>"
  using assms find_enumerate_None [of "filter_by key_fields" 0 "working s (tablename m)"]
  by (auto simp: query_first_def Let_def)

lemma query_first_finds:
  assumes "list_ex (filter_by key_fields) (working s (tablename m))"
  shows "\<exists>s2 i r. query_first s m key_fields = (s2, Some (i, r))"
proof (cases "snd (query_first s m key_fields)")
  case None
  then have "query_first s m key_fields = (fst (query_first s m key_fields), None)"
    by (metis prod.collapse)
  from query_first_None(1) [OF this] assms show ?thesis by simp
next
  case (Some ir)
  then show ?thesis by (cases ir) (metis prod.collapse)
qed

subsection \<open>Key fields and instances\<close>

lemma key_fields_of_Inr:
  assumes "key_fields_of data keys = Inr key_fields"
  shows "key_fields = map (\<lambda>key. (key, attr data key)) keys" and "set keys \<subseteq> dom data"
  using assms by (auto simp: key_fields_of_def find_None_iff split: option.splits)

lemma key_fields_of_Inl:
  assumes "key_fields_of data keys = Inl e"
  shows "\<exists>key \<in> set keys. e = KeyError key \<and> data key = None"
  using assms by (auto simp: key_fields_of_def split: option.splits dest: find_Some_iff [THEN iffD1])

lemma key_fields_of_total:
  "set keys \<subseteq> dom data \<Longrightarrow>
     key_fields_of data keys = Inr (map (\<lambda>key. (key, attr data key)) keys)"
  by (auto simp: key_fields_of_def find_None_iff split: option.splits)

lemma construct_Inr:
  assumes "construct m data = Inr inst"
  shows "dom data \<subseteq> set (columns m)"
    and "inst = (\<lambda>c. if c \<in> set (columns m) then Some (attr data c) else None)"
  using assms by (auto simp: construct_def split: if_splits)

lemma attr_construct:
  assumes "construct m data = Inr inst"
  shows "attr inst c = attr data c"
proof (cases "c \<in> set (columns m)")
  case True
  then show ?thesis using construct_Inr(2) [OF assms] by (simp add: attr_def)
next
  case False
  then have "data c = None" using construct_Inr(1) [OF assms] by auto
  then show ?thesis using False construct_Inr(2) [OF assms] by (simp add: attr_def)
qed

lemma construct_field:
  assumes "construct m data = Inr inst" and "data k = Some v"
  shows "inst k = Some v"
proof -
  have "k \<in> set (columns m)" using construct_Inr(1) [OF assms(1)] assms(2) by auto
  then show ?thesis using construct_Inr(2) [OF assms(1)] assms(2) by (simp add: attr_def)
qed

lemma filter_by_key_fields:
  "filter_by (map (\<lambda>key. (key, attr data key)) keys) r \<longleftrightarrow>
     (\<forall>k \<in> set keys. attr r k = attr data k)"
  by (simp add: filter_by_def list_all_iff)

lemma attr_map_add:
  "attr (r ++ data) c = (if data c = None then attr r c else attr data c)"
  by (auto simp: attr_def map_add_def split: option.splits)

lemma attr_upd: "attr (r(k \<mapsto> v)) c = (if c = k then v else attr r c)"
  by (simp add: attr_def)

subsection \<open>Violations\<close>

lemma check_row_None:
  "check_row d nn ucs fks others new = None \<longleftrightarrow>
     check_not_null nn new = None \<and> check_unique ucs others new = None
     \<and> check_foreign_keys d fks new = None"
  by (auto simp: check_row_def split: option.splits)

lemma check_not_null_None:
  "check_not_null cols new = None \<longleftrightarrow> (\<forall>c \<in> set cols. attr new c \<noteq> VNone)"
  by (auto simp: check_not_null_def find_None_iff)

lemma check_unique_None:
  "check_unique ucs others new = None \<longleftrightarrow>
     (\<forall>cols \<in> set ucs. \<not> list_ex (conflicts cols new) others)"
  by (auto simp: check_unique_def find_None_iff)

lemma check_foreign_keys_None:
  "check_foreign_keys d fks new = None \<longleftrightarrow>
     (\<forall>fk \<in> set fks. attr new (fst fk) = VNone
        \<or> list_ex (\<lambda>r. attr r ''id'' = attr new (fst fk)) (d (snd fk)))"
  unfolding check_foreign_keys_def by (simp add: find_None_iff) force

lemma check_row_unique:
  assumes "check_row d nn ucs fks others new = Some (UniqueViolation cols)"
  shows "cols \<in> set ucs" and "list_ex (conflicts cols new) others"
proof -
  have "check_unique ucs others new = Some (UniqueViolation cols)"
    using assms
    by (auto simp: check_row_def check_not_null_def check_foreign_keys_def
        split: option.splits)
  then have "List.find (\<lambda>cols. list_ex (conflicts cols new) others) ucs = Some cols"
    by (auto simp: check_unique_def)
  then show "cols \<in> set ucs" and "list_ex (conflicts cols new) others"
    by (auto simp: find_Some_iff)
qed

lemma conflicts_iff:
  "conflicts cols new other \<longleftrightarrow>
     (\<forall>c \<in> set cols. attr new c \<noteq> VNone \<and> attr other c = attr new c)"
  by (simp add: conflicts_def list_all_iff)

text \<open>A conflict on the columns of the key is a row that the fallback's query matches.\<close>

lemma conflict_is_match:
  assumes kf: "key_fields_of data keys = Inr key_fields"
    and c: "construct m data = Inr inst"
    and new: "new = (if attr inst ''id'' = VNone then inst(''id'' \<mapsto> VInt (next_id rows)) else inst)"
    and other: "other \<in> set rows" and conf: "conflicts cols new other"
    and cols: "set cols = set keys"
  shows "filter_by key_fields other"
proof -
  have "attr other k = attr data k" if k: "k \<in> set keys" for k
  proof -
    have ck: "attr new k \<noteq> VNone" "attr other k = attr new k"
      using conf cols k by (auto simp: conflicts_iff)
    show ?thesis
    proof (cases "k = ''id'' \<and> attr inst ''id'' = VNone")
      case True
      then have "attr other ''id'' = VInt (next_id rows)"
        using ck(2) new by (simp add: attr_upd)
      then show ?thesis using next_id_fresh [OF other] by simp
    next
      case False
      then have "attr new k = attr inst k" using new by (auto simp: attr_upd)
      then show ?thesis using ck(2) attr_construct [OF c] by simp
    qed
  qed
  then show ?thesis
    using key_fields_of_Inr(1) [OF kf] by (simp add: filter_by_key_fields)
qed

lemma insert_conflict_found:
  assumes kf: "key_fields_of data keys = Inr key_fields"
    and c: "construct m data = Inr inst"
    and ins: "session_insert s m inst = (s1, Inl (IntegrityError (UniqueViolation cols)))"
    and cols: "set cols = set keys"
  shows "list_ex (filter_by key_fields) (working s (tablename m))"
proof -
  from session_insert_Inl [OF ins] obtain new where
    new: "new = (if attr inst ''id'' = VNone
                  then inst(''id'' \<mapsto> VInt (next_id (working s (tablename m)))) else inst)"
    and chk: "check_insert (working s) m new = Some (UniqueViolation cols)"
    by auto
  from chk have "list_ex (conflicts cols new) (working s (tablename m))"
    unfolding check_insert_def by (rule check_row_unique(2))
  then obtain other where other: "other \<in> set (working s (tablename m))"
    and conf: "conflicts cols new other"
    by (auto simp: list_ex_iff)
  have "filter_by key_fields other"
    by (rule conflict_is_match [OF kf c new other conf cols])
  then show ?thesis using other by (auto simp: list_ex_iff)
qed

text \<open>With a unique constraint on the key, a matching row makes the insert fail.\<close>

lemma match_is_conflict:
  assumes kf: "key_fields_of data keys = Inr key_fields"
    and c: "construct m data = Inr inst"
    and new: "new = (if attr inst ''id'' = VNone then inst(''id'' \<mapsto> VInt n) else inst)"
    and nn: "\<forall>k \<in> set keys. attr data k \<noteq> VNone"
    and cols: "set cols = set keys"
    and m: "filter_by key_fields other"
  shows "conflicts cols new other"
proof -
  have "attr new k \<noteq> VNone \<and> attr other k = attr new k" if k: "k \<in> set keys" for k
  proof -
    have dk: "attr data k \<noteq> VNone" using nn k by simp
    have ik: "attr inst k = attr data k" by (rule attr_construct [OF c])
    have "attr new k = attr data k"
      using new ik dk by (auto simp: attr_upd)
    moreover have "attr other k = attr data k"
      using m k key_fields_of_Inr(1) [OF kf] by (simp add: filter_by_key_fields)
    ultimately show ?thesis using dk by simp
  qed
  then show ?thesis using cols by (simp add: conflicts_iff)
qed

lemma insert_fails_on_match:
  assumes kf: "key_fields_of data keys = Inr key_fields"
    and c: "construct m data = Inr inst"
    and nn: "\<forall>k \<in> set keys. attr data k \<noteq> VNone"
    and uq: "cols \<in> set (uniques m)" "set cols = set keys"
    and ex: "list_ex (filter_by key_fields) (working s (tablename m))"
  shows "\<exists>s1 e. session_insert s m inst = (s1, Inl e)"
proof (cases rule: session_insert_cases [of s m inst])
  case (ok s1 new)
  note n = session_insert_Inr [OF ok]
  from ex obtain other where other: "other \<in> set (working s (tablename m))"
    and m: "filter_by key_fields other"
    by (auto simp: list_ex_iff)
  have "conflicts cols new other"
    by (rule match_is_conflict [OF kf c n(1) nn uq(2) m])
  then have "list_ex (conflicts cols new) (working s (tablename m))"
    using other by (auto simp: list_ex_iff)
  then have "check_unique ([''id''] # uniques m) (working s (tablename m)) new \<noteq> None"
    using uq(1) by (auto simp: check_unique_None)
  then have "check_insert (working s) m new \<noteq> None"
    by (simp add: check_insert_def check_row_None)
  then show ?thesis using n(2) by simp
next
  case (failed s1 v)
  then show ?thesis by blast
next
  case (refused s1 t p)
  then show ?thesis by blast
qed

subsection \<open>Updates\<close>

lemma session_update_Inr:
  assumes "session_update s m i new = (s3, Inr r')"
  shows "r' = new"
    and "s3 = s\<lparr>working := (working s)(tablename m := (working s (tablename m))[i := new]),
                 trace := trace s @ [EvUpdate (tablename m) new]\<rparr>"
  using assms by (auto simp: session_update_def Let_def split: option.splits if_splits)

lemma session_update_Inl:
  assumes "session_update s m i new = (s3, Inl e)"
  shows "(\<exists>v. e = IntegrityError v
            \<and> s3 = s\<lparr>trace := trace s @ [EvUpdateFailed (tablename m) new v]\<rparr>)
         \<or> (\<exists>p. e = DataError (tablename m) p
            \<and> s3 = s\<lparr>trace := trace s @ [EvUpdateRefused (tablename m) new]\<rparr>)"
  using assms by (auto simp: session_update_def Let_def split: option.splits if_splits)

lemma filter_update_single:
  assumes i: "i < length rows" and old: "P (rows ! i)" and new: "P x"
    and one: "length (filter P rows) \<le> 1"
  shows "filter P (rows[i := x]) = [x]"
proof -
  have split: "rows = take i rows @ rows ! i # drop (Suc i) rows"
    using i by (rule id_take_nth_drop)
  have "length (filter P rows) =
      length (filter P (take i rows)) + 1 + length (filter P (drop (Suc i) rows))"
    using old by (subst split) simp
  then have e: "filter P (take i rows) = []" "filter P (drop (Suc i) rows) = []"
    using one by auto
  have "rows[i := x] = take i rows @ x # drop (Suc i) rows"
    using i by (rule upd_conv_take_nth_drop)
  then show ?thesis using e new by simp
qed

lemma changed_map_add:
  "changed r (r ++ data) c \<longleftrightarrow> data c \<noteq> None \<and> attr r c \<noteq> attr data c"
  by (auto simp: changed_def attr_map_add)

lemma check_insert_not_null:
  assumes "check_insert d m new = Some (UniqueViolation cols)"
  shows "\<forall>c \<in> set (not_null m). attr new c \<noteq> VNone"
proof -
  have "check_not_null (''id'' # not_null m) new = None"
    using assms
    by (auto simp: check_insert_def check_row_def check_not_null_def split: option.splits)
  then show ?thesis by (simp add: check_not_null_None)
qed

text \<open>
  After a conflict on the key, the flush of the overwritten row cannot fail when the key
  covers every unique constraint and every foreign key of the model and the payload
  leaves \<^verbatim>\<open>id\<close> alone: only columns outside the key change, and the failed insert has
  already found them not null.
\<close>

lemma update_after_conflict:
  assumes kf: "key_fields_of data keys = Inr key_fields"
    and c: "construct m data = Inr inst"
    and ins: "session_insert s m inst = (s1, Inl (IntegrityError (UniqueViolation cols)))"
    and noid: "''id'' \<notin> dom data"
    and uq: "\<forall>u \<in> set (uniques m). set u \<subseteq> set keys"
    and fks: "\<forall>fk \<in> set (foreign_keys m). fst fk \<in> set keys"
    and q: "query_first s' m key_fields = (s2, Some (i, r))"
    and cast': "integer_cast s' = integer_cast s"
  shows "\<exists>s3. session_update s2 m i (r ++ data) = (s3, Inr (r ++ data))"
proof -
  note qs = query_first_Some [OF q]
  have w2: "working s2 = working s'" using qs(4) by simp
  have cast: "integer_cast s2 = integer_cast s" using qs(4) cast' by simp
  have ri: "working s2 (tablename m) ! i = r" using qs(2) w2 by simp
  have match: "\<forall>k \<in> set keys. attr r k = attr data k"
    using qs(3) key_fields_of_Inr(1) [OF kf] by (simp add: filter_by_key_fields)
  from session_insert_Inl [OF ins] obtain new where
    new: "new = (if attr inst ''id'' = VNone
                  then inst(''id'' \<mapsto> VInt (next_id (working s (tablename m)))) else inst)"
    and chk: "check_insert (working s) m new = Some (UniqueViolation cols)"
    and typed: "check_types (integer_cast s) (column_types m) new"
    and s1: "s1 = s\<lparr>trace := trace s @ [EvInsertFailed (tablename m) new (UniqueViolation cols)]\<rparr>"
    by auto
  have nn: "attr data c \<noteq> VNone" if "c \<in> set (not_null m)" "data c \<noteq> None" for c
  proof -
    have "c \<noteq> ''id''" using that(2) noid by auto
    then have "attr new c = attr data c"
      using new attr_construct [OF c] by (auto simp: attr_upd)
    then show ?thesis using check_insert_not_null [OF chk] that(1) by auto
  qed
  have idc: "\<not> changed r (r ++ data) ''id''"
    using noid by (auto simp: changed_map_add)
  have keyc: "\<not> changed r (r ++ data) k" if "k \<in> set keys" for k
    using match that by (simp add: changed_map_add)
  have a: "check_not_null (filter (changed r (r ++ data)) (''id'' # not_null m)) (r ++ data) = None"
    using idc nn by (auto simp: check_not_null_None changed_map_add attr_map_add)
  have "filter (list_ex (changed r (r ++ data))) ([''id''] # uniques m) = []"
    using idc keyc uq by (auto simp: filter_empty_conv list_ex_iff)
  then have b: "check_unique (filter (list_ex (changed r (r ++ data))) ([''id''] # uniques m))
      others (r ++ data) = None" for others
    by (simp add: check_unique_None)
  have "filter (\<lambda>fk. changed r (r ++ data) (fst fk)) (foreign_keys m) = []"
    using keyc fks by (auto simp: filter_empty_conv)
  then have d: "check_foreign_keys (working s2)
      (filter (\<lambda>fk. changed r (r ++ data) (fst fk)) (foreign_keys m)) (r ++ data) = None"
    by (simp add: check_foreign_keys_None)
  have upd: "check_update (working s2) m others r (r ++ data) = None" for others
    unfolding check_update_def check_row_None using a b d by simp
  have "fits (integer_cast s) (snd ct) (attr (r ++ data) (fst ct))"
    if ct: "ct \<in> set (column_types m)" and ch: "changed r (r ++ data) (fst ct)" for ct
  proof -
    have dc: "data (fst ct) \<noteq> None" using ch by (simp add: changed_map_add)
    then have "fst ct \<noteq> ''id''" using noid by auto
    then have "attr new (fst ct) = attr data (fst ct)"
      using new attr_construct [OF c] by (auto simp: attr_upd)
    then have "attr (r ++ data) (fst ct) = attr new (fst ct)"
      using dc by (auto simp: attr_map_add)
    then show ?thesis using typed ct by (simp add: check_types_def list_all_iff)
  qed
  then have ty: "check_types (integer_cast s2)
      (filter (\<lambda>ct. changed r (r ++ data) (fst ct)) (column_types m)) (r ++ data)"
    using cast by (simp add: check_types_def list_all_iff)
  show ?thesis
    using ri upd ty by (simp add: session_update_def Let_def)
qed


lemmas store_defs = upsert_def key_fields_of_def construct_def session_insert_def
  check_types_def text_params_def List.map_filter_def lit_def example_cast_def
  check_insert_def check_row_def check_not_null_def check_unique_def check_foreign_keys_def
  attr_def next_id_def session_commit_def session_rollback_def query_first_def
  session_update_def check_update_def conflicts_def filter_by_def changed_def Let_def




lemma query_first_cases:
  obtains (none) s2 where "query_first s m key_fields = (s2, None)"
  | (found) s2 i r where "query_first s m key_fields = (s2, Some (i, r))"
  by (cases "snd (query_first s m key_fields)") (metis prod.collapse)+

text \<open>
  C10. In the branch after an \<^verbatim>\<open>IntegrityError\<close>, with a key of at least one field:
  when no committed record matches the key fields, the query returns \<^verbatim>\<open>None\<close> and the
  first \<^verbatim>\<open>setattr\<close> raises \<^verbatim>\<open>AttributeError\<close>; and whenever the branch returns a record,
  a committed record matching the key fields was there. The first happens after a
  violation of another constraint than the key's, and after a conflict with a row that
  is not committed.
\<close>

theorem upsert_lookup_unchecked:
  fixes s :: "('f, 'd) session"
  assumes keys: "keys \<noteq> []"
    and kf: "key_fields_of data keys = Inr key_fields"
    and c: "construct m data = Inr inst"
    and ins: "session_insert s m inst = (s1, Inl (IntegrityError v))"
  shows "(\<not> list_ex (filter_by key_fields) (committed s (tablename m)) \<longrightarrow>
            snd (upsert s m data keys) = Inl AttributeError)
       \<and> (\<forall>r'. snd (upsert s m data keys) = Inr r' \<longrightarrow>
            list_ex (filter_by key_fields) (committed s (tablename m)))"
proof -
  have "hd keys \<in> dom data"
    using key_fields_of_Inr(2) [OF kf] keys by (cases keys) auto
  then have ne: "data \<noteq> Map.empty" by auto
  have s1: "committed s1 = committed s"
    using session_insert_Inl [OF ins] by auto
  have rb: "working (session_rollback s1) = committed s"
    using s1 by (simp add: session_rollback_def)
  note up = upsert_conflict [OF kf c ins]
  show ?thesis
  proof (cases rule: query_first_cases [of "session_rollback s1" m key_fields])
    case (none s2)
    have "\<not> list_ex (filter_by key_fields) (committed s (tablename m))"
      using query_first_None(1) [OF none] rb by simp
    moreover have "snd (upsert s m data keys) = Inl AttributeError"
      using up none ne by simp
    ultimately show ?thesis by simp
  next
    case (found s2 i r)
    have "filter_by key_fields r" "r \<in> set (committed s (tablename m))"
      using query_first_Some(1,2,3) [OF found] rb by (auto simp: in_set_conv_nth)
    then have "list_ex (filter_by key_fields) (committed s (tablename m))"
      by (auto simp: list_ex_iff)
    then show ?thesis by simp
  qed
qed

theorem upsert_lookup_unchecked_witness:
  "snd (upsert empty_session Insider
          (map_of [(''name'', VStr (lit ''COOK TIMOTHY D''))] :: (str, str) pydict) [''name''])
     = Inl AttributeError
   \<and> snd (upsert uncommitted_session Insider (example_insider ''Director'') [''name''])
     = Inl AttributeError
   \<and> (\<exists>r'. snd (upsert example_session Insider (example_insider ''Director'') [''name''])
         = Inr r')
   \<and> list_ex (filter_by [(''name'', VStr (lit ''COOK TIMOTHY D''))])
        (committed example_session (tablename Insider))"
proof (intro conjI)
  let ?d = "map_of [(''name'', VStr (lit ''COOK TIMOTHY D''))] :: (str, str) pydict"
  let ?s = empty_session
  have kf: "key_fields_of ?d [''name''] = Inr [(''name'', VStr (lit ''COOK TIMOTHY D''))]"
    by (simp add: key_fields_of_def attr_def)
  obtain inst where c: "construct Insider ?d = Inr inst"
    by (simp add: construct_def Insider_def)
  obtain s1 where ins:
    "session_insert ?s Insider inst = (s1, Inl (IntegrityError (NotNullViolation ''relation'')))"
    using construct_Inr(2) [OF c]
    by (simp add: store_defs empty_session_def Insider_def)
  have "\<not> list_ex (filter_by [(''name'', VStr (lit ''COOK TIMOTHY D''))])
      (committed ?s (tablename Insider))"
    by (simp add: empty_session_def)
  then show "snd (upsert ?s Insider ?d [''name'']) = Inl AttributeError"
    using upsert_lookup_unchecked [OF _ kf c ins] by simp
next
  let ?d = "example_insider ''Director''"
  let ?s = uncommitted_session
  have kf: "key_fields_of ?d [''name''] = Inr [(''name'', VStr (lit ''COOK TIMOTHY D''))]"
    by (simp add: key_fields_of_def attr_def example_insider_def)
  obtain inst where c: "construct Insider ?d = Inr inst"
    by (simp add: construct_def Insider_def example_insider_def)
  obtain s1 where ins:
    "session_insert ?s Insider inst = (s1, Inl (IntegrityError (UniqueViolation [''name''])))"
    using construct_Inr(2) [OF c]
    by (simp add: uncommitted_session_def example_session_def store_defs empty_session_def
        Insider_def example_insider_def)
  have "\<not> list_ex (filter_by [(''name'', VStr (lit ''COOK TIMOTHY D''))])
      (committed ?s (tablename Insider))"
    by (simp add: uncommitted_session_def)
  then show "snd (upsert ?s Insider ?d [''name'']) = Inl AttributeError"
    using upsert_lookup_unchecked [OF _ kf c ins] by simp
next
  let ?d = "example_insider ''Director''"
  let ?s = example_session
  have kf: "key_fields_of ?d [''name''] = Inr [(''name'', VStr (lit ''COOK TIMOTHY D''))]"
    by (simp add: key_fields_of_def attr_def example_insider_def)
  obtain inst where c: "construct Insider ?d = Inr inst"
    by (simp add: construct_def Insider_def example_insider_def)
  obtain s1 where ins:
    "session_insert ?s Insider inst = (s1, Inl (IntegrityError (UniqueViolation [''name''])))"
    using construct_Inr(2) [OF c]
    by (simp add: example_session_def store_defs empty_session_def Insider_def
        example_insider_def)
  show r: "\<exists>r'. snd (upsert ?s Insider ?d [''name'']) = Inr r'"
    by (simp add: example_session_def store_defs empty_session_def Insider_def
        example_insider_def)
  then show "list_ex (filter_by [(''name'', VStr (lit ''COOK TIMOTHY D''))])
        (committed ?s (tablename Insider))"
    using upsert_lookup_unchecked [OF _ kf c ins] by blast
qed

lemma upsert_Inr_key_fields:
  assumes "upsert s m data keys = (s', Inr r')"
  shows "\<exists>inst. key_fields_of data keys = Inr (map (\<lambda>key. (key, attr data key)) keys)
           \<and> construct m data = Inr inst"
proof (cases "key_fields_of data keys")
  case (Inl e)
  then show ?thesis using assms by (simp add: upsert_def)
next
  case (Inr kf)
  then have kf: "key_fields_of data keys = Inr (map (\<lambda>key. (key, attr data key)) keys)"
    using key_fields_of_Inr(1) by blast
  show ?thesis
  proof (cases "construct m data")
    case (Inl e)
    then show ?thesis using assms kf by (simp add: upsert_def)
  next
    case (Inr inst)
    then show ?thesis using kf by simp
  qed
qed

text \<open>
  One successful \<^verbatim>\<open>upsert\<close> on a keyed model leaves exactly one committed record with
  the key, the returned one.
\<close>

lemma upsert_resident:
  fixes s :: "('f, 'd) session"
  assumes ret: "upsert s m data keys = (s', Inr (Some r'))"
    and kf: "key_fields = map (\<lambda>key. (key, attr data key)) keys"
    and uq: "cols \<in> set (uniques m)" "set cols = set keys"
    and nn: "\<forall>k \<in> set keys. attr data k \<noteq> VNone"
    and one: "length (filter (filter_by key_fields) (committed s (tablename m))) \<le> 1"
  shows "filter (filter_by key_fields) (committed s' (tablename m)) = [r']"
    and "working s' = committed s'"
    and "list_ex (filter_by key_fields) (working s (tablename m)) \<longrightarrow> (\<exists>r. r' = r ++ data)"
proof -
  from upsert_Inr_key_fields [OF ret] obtain inst
    where kfo: "key_fields_of data keys = Inr key_fields" and c: "construct m data = Inr inst"
    using kf by auto
  have all: "filter (filter_by key_fields) (committed s' (tablename m)) = [r']
      \<and> working s' = committed s'
      \<and> (list_ex (filter_by key_fields) (working s (tablename m)) \<longrightarrow> (\<exists>r. r' = r ++ data))"
  proof (cases rule: session_insert_cases [of s m inst])
    case (ok s1 new)
    note n = session_insert_Inr [OF ok]
    have up: "upsert s m data keys = (session_commit s1, Inr (Some new))"
      by (rule upsert_inserted [OF kfo c ok])
    then have s': "s' = session_commit s1" and r': "r' = new" using ret by simp_all
    have nomatch: "\<not> list_ex (filter_by key_fields) (working s (tablename m))"
    proof
      assume "list_ex (filter_by key_fields) (working s (tablename m))"
      from insert_fails_on_match [OF kfo c nn uq this] show False using ok by simp
    qed
    have newk: "attr new k = attr data k" if "k \<in> set keys" for k
    proof -
      have "attr data k \<noteq> VNone" using nn that by simp
      then show ?thesis using n(1) attr_construct [OF c, of k] by (auto simp: attr_upd)
    qed
    then have pn: "filter_by key_fields new"
      using kf by (simp add: filter_by_key_fields)
    have "committed s' (tablename m) = working s (tablename m) @ [new]"
      using s' n(3) by (simp add: session_commit_def)
    moreover have "filter (filter_by key_fields) (working s (tablename m)) = []"
      using nomatch by (auto simp: filter_empty_conv list_ex_iff)
    ultimately have "filter (filter_by key_fields) (committed s' (tablename m)) = [r']"
      using pn r' by simp
    moreover have "working s' = committed s'" using s' by (simp add: session_commit_def)
    ultimately show ?thesis using nomatch by simp
  next
    case (failed s1 v)
    have s1: "committed s1 = committed s"
      using session_insert_Inl [OF failed] by auto
    have rb: "working (session_rollback s1) = committed s"
      using s1 by (simp add: session_rollback_def)
    have rbc: "committed (session_rollback s1) = committed s"
      using s1 by (simp add: session_rollback_def)
    note up = upsert_conflict [OF kfo c failed]
    show ?thesis
    proof (cases rule: query_first_cases [of "session_rollback s1" m key_fields])
      case (none s2)
      then show ?thesis using up ret by (simp split: if_splits)
    next
      case (found s2 i r)
      note qs = query_first_Some [OF found]
      have w2: "working s2 = committed s" using qs(4) rb by simp
      obtain s3 where u: "session_update s2 m i (r ++ data) = (s3, Inr r')"
        and s': "s' = session_commit s3"
        using up ret found
        by (cases "session_update s2 m i (r ++ data)") (auto split: sum.splits)
      note us = session_update_Inr [OF u]
      have tbl: "committed s' (tablename m) = (committed s (tablename m))[i := r']"
        using s' us w2 by (simp add: session_commit_def)
      have i: "i < length (committed s (tablename m))" using qs(1) rb by simp
      have old: "filter_by key_fields (committed s (tablename m) ! i)"
        using qs(2,3) rb by simp
      have "attr r' k = attr data k" if "k \<in> set keys" for k
      proof -
        have "data k \<noteq> None" using key_fields_of_Inr(2) [OF kfo] that by auto
        then show ?thesis using us(1) by (auto simp: attr_map_add)
      qed
      then have new: "filter_by key_fields r'"
        using kf by (simp add: filter_by_key_fields)
      have "filter (filter_by key_fields) (committed s' (tablename m)) = [r']"
        unfolding tbl by (rule filter_update_single [OF i old new one])
      moreover have "working s' = committed s'" using s' by (simp add: session_commit_def)
      moreover have "\<exists>r. r' = r ++ data" using us(1) by blast
      ultimately show ?thesis by simp
    qed
  next
    case (refused s1 t p)
    from upsert_refused [OF kfo c refused] ret show ?thesis by simp
  qed
  show "filter (filter_by key_fields) (committed s' (tablename m)) = [r']"
    and "working s' = committed s'"
    and "list_ex (filter_by key_fields) (working s (tablename m)) \<longrightarrow> (\<exists>r. r' = r ++ data)"
    using all by simp_all
qed

text \<open>
  C2. For a model with a unique constraint on the key columns, two payloads that agree on
  the key (with no null in it), and a store that holds at most one record with that key:
  after \<^verbatim>\<open>upsert\<close> of the first payload and then of the second, both returning, the
  committed table holds exactly one record with the key; it is the record the second call
  returned and it holds every field of the second payload.
\<close>

theorem upsert_twice_last_write_wins:
  fixes s :: "('f, 'd) session"
  assumes uq: "cols \<in> set (uniques m)" "set cols = set keys"
    and agree: "\<forall>k \<in> set keys. attr d1 k = attr d2 k"
    and nn: "\<forall>k \<in> set keys. attr d1 k \<noteq> VNone"
    and one: "length (filter (filter_by (map (\<lambda>key. (key, attr d1 key)) keys))
                (committed s (tablename m))) \<le> 1"
    and first: "upsert s m d1 keys = (s1, Inr (Some r1))"
    and second: "upsert s1 m d2 keys = (s2, Inr (Some r2))"
  shows "filter (filter_by (map (\<lambda>key. (key, attr d1 key)) keys)) (committed s2 (tablename m))
           = [r2]
       \<and> (\<forall>k v. d2 k = Some v \<longrightarrow> r2 k = Some v)
       \<and> (\<forall>k \<in> set keys. attr r2 k = attr d1 k)
       \<and> working s2 = committed s2"
proof -
  let ?kf = "map (\<lambda>key. (key, attr d1 key)) keys"
  have kf2: "?kf = map (\<lambda>key. (key, attr d2 key)) keys"
    using agree by simp
  have nn2: "\<forall>k \<in> set keys. attr d2 k \<noteq> VNone" using nn agree by simp
  note a = upsert_resident [OF first refl uq nn one]
  have one1: "length (filter (filter_by ?kf) (committed s1 (tablename m))) \<le> 1"
    using a(1) by simp
  note b = upsert_resident [OF second kf2 uq nn2 one1]
  have "r1 \<in> set (filter (filter_by ?kf) (committed s1 (tablename m)))"
    using a(1) by simp
  then have "list_ex (filter_by ?kf) (working s1 (tablename m))"
    using a(2) by (auto simp: list_ex_iff)
  then obtain r where r2: "r2 = r ++ d2" using b(3) by blast
  have f: "\<forall>k v. d2 k = Some v \<longrightarrow> r2 k = Some v"
    using r2 by (simp add: map_add_def)
  have "r2 \<in> set (filter (filter_by ?kf) (committed s2 (tablename m)))"
    using b(1) by simp
  then have "filter_by ?kf r2" by simp
  then have k: "\<forall>k \<in> set keys. attr r2 k = attr d1 k"
    by (simp add: filter_by_key_fields)
  show ?thesis using b(1,2) f k by simp
qed

theorem upsert_twice_last_write_wins_witness:
  "\<exists>s1 r1 s2 r2.
     upsert empty_session Insider (example_insider ''Officer'') [''name''] = (s1, Inr (Some r1))
   \<and> upsert s1 Insider (example_insider ''Director'') [''name''] = (s2, Inr (Some r2))
   \<and> filter (filter_by [(''name'', VStr (lit ''COOK TIMOTHY D''))]) (committed s2 ''insider'') = [r2]
   \<and> r2 ''relation'' = Some (VStr (lit ''Director''))
   \<and> r2 ''name'' = Some (VStr (lit ''COOK TIMOTHY D''))"
proof -
  let ?d1 = "example_insider ''Officer''" and ?d2 = "example_insider ''Director''"
  obtain r1 where first: "upsert empty_session Insider ?d1 [''name'']
      = (example_session, Inr (Some r1))"
    unfolding example_session_def
    by (simp add: store_defs empty_session_def Insider_def example_insider_def)
  obtain s2 r2 where second: "upsert example_session Insider ?d2 [''name'']
      = (s2, Inr (Some r2))"
    by (simp add: example_session_def store_defs empty_session_def Insider_def
        example_insider_def)
  have uq: "[''name''] \<in> set (uniques Insider)" "set [''name''] = set [''name'']"
    by (simp_all add: Insider_def)
  have agree: "\<forall>k \<in> set [''name'']. attr ?d1 k = attr ?d2 k"
    by (simp add: attr_def example_insider_def)
  have nn: "\<forall>k \<in> set [''name'']. attr ?d1 k \<noteq> VNone"
    by (simp add: attr_def example_insider_def)
  have one: "length (filter (filter_by (map (\<lambda>key. (key, attr ?d1 key)) [''name'']))
                (committed empty_session (tablename Insider))) \<le> 1"
    by (simp add: empty_session_def)
  note t = upsert_twice_last_write_wins [OF uq agree nn one first second]
  have "filter (filter_by [(''name'', VStr (lit ''COOK TIMOTHY D''))]) (committed s2 ''insider'') = [r2]"
    using t by (simp add: attr_def example_insider_def Insider_def)
  moreover have "r2 ''relation'' = Some (VStr (lit ''Director''))"
    and "r2 ''name'' = Some (VStr (lit ''COOK TIMOTHY D''))"
    using t by (simp_all add: example_insider_def)
  ultimately show ?thesis using first second by blast
qed


section \<open>Tasks\<close>

subsection \<open>Column types\<close>

lemma fits_plain: "fits cast t VNone" "fits cast t (VInt i)"
  by (cases t; simp)+

text \<open>
  Whether a row is refused, and with which parameters, depends on its values only up to
  keys and nulls.
\<close>

lemma check_types_same:
  assumes "\<And>ct. ct \<in> set types \<Longrightarrow> attr a (fst ct) = attr b (fst ct)
             \<or> ((attr a (fst ct) = VNone \<or> is_key (attr a (fst ct)))
                \<and> (attr b (fst ct) = VNone \<or> is_key (attr b (fst ct))))"
  shows "check_types cast types a = check_types cast types b"
proof -
  have "fits cast (snd ct) (attr a (fst ct)) = fits cast (snd ct) (attr b (fst ct))"
    if "ct \<in> set types" for ct
    using assms [OF that] by (auto simp: is_key_def fits_plain split: val.splits)
  then show ?thesis by (auto simp: check_types_def list_all_iff)
qed

lemma text_params_same:
  assumes "\<And>c. c \<in> set cols \<Longrightarrow> attr a c = attr b c
             \<or> ((attr a c = VNone \<or> is_key (attr a c)) \<and> (attr b c = VNone \<or> is_key (attr b c)))"
  shows "text_params cols a = text_params cols b"
  using assms
proof (induction cols)
  case Nil
  show ?case by (simp add: text_params_def List.map_filter_simps)
next
  case (Cons c cols)
  have "text_params cols a = text_params cols b"
    using Cons.prems by (intro Cons.IH) simp
  moreover have "(case attr a c of VStr x \<Rightarrow> Some (c, x) | _ \<Rightarrow> None)
      = (case attr b c of VStr x \<Rightarrow> Some (c, x) | _ \<Rightarrow> None)"
    using Cons.prems [of c] by (auto simp: is_key_def split: val.splits)
  ultimately show ?case
    by (simp add: text_params_def List.map_filter_simps split: option.splits)
qed

lemma new_id_same:
  assumes "attr inst ''id'' = VNone"
  shows "check_types cast types (inst(''id'' \<mapsto> VInt n)) = check_types cast types inst"
    and "text_params cols (inst(''id'' \<mapsto> VInt n)) = text_params cols inst"
proof -
  have "attr (inst(''id'' \<mapsto> VInt n)) c = attr inst c
      \<or> ((attr (inst(''id'' \<mapsto> VInt n)) c = VNone \<or> is_key (attr (inst(''id'' \<mapsto> VInt n)) c))
         \<and> (attr inst c = VNone \<or> is_key (attr inst c)))" for c
    using assms by (simp add: attr_upd is_key_def)
  then show "check_types cast types (inst(''id'' \<mapsto> VInt n)) = check_types cast types inst"
    and "text_params cols (inst(''id'' \<mapsto> VInt n)) = text_params cols inst"
    by (intro check_types_same text_params_same; blast)+
qed

lemma construct_same:
  assumes "construct m data = Inr inst"
  shows "check_types cast types inst = check_types cast types data"
    and "text_params cols inst = text_params cols data"
  using attr_construct [OF assms]
  by (intro check_types_same text_params_same; simp)+

subsection \<open>Upserts on a keyed model\<close>

text \<open>
  An upsert on a keyed model with a complete payload whose values the columns accept
  always returns: the only violation left is the one on the key, and the fallback then
  finds the row and may overwrite it.
\<close>

lemma upsert_keyed_ok:
  fixes s :: "('f, 'd) session"
  assumes clean: "working s = committed s"
    and dm: "dom data \<subseteq> set (columns m)"
    and keys: "set keys \<subseteq> dom data"
    and noid: "''id'' \<notin> dom data"
    and nn: "\<forall>c \<in> set (not_null m). attr data c \<noteq> VNone"
    and uq: "\<forall>u \<in> set (uniques m). set u = set keys"
    and fk: "\<forall>fk \<in> set (foreign_keys m). fst fk \<in> set keys
               \<and> list_ex (\<lambda>r. attr r ''id'' = attr data (fst fk)) (committed s (snd fk))"
    and typed: "check_types (integer_cast s) (column_types m) data"
  shows "\<exists>s' r'. upsert s m data keys = (s', Inr (Some r'))
        \<and> working s' = committed s'
        \<and> (\<forall>t. t \<noteq> tablename m \<longrightarrow> committed s' t = committed s t)
        \<and> r' \<in> set (committed s' (tablename m))
        \<and> (ids_ok (committed s (tablename m)) \<longrightarrow> ids_ok (committed s' (tablename m)))
        \<and> (\<forall>k v. data k = Some v \<longrightarrow> r' k = Some v)
        \<and> integer_cast s' = integer_cast s"
proof -
  let ?kf = "map (\<lambda>key. (key, attr data key)) keys"
  let ?tbl = "tablename m"
  have kf: "key_fields_of data keys = Inr ?kf"
    by (rule key_fields_of_total [OF keys])
  define inst where "inst = (\<lambda>c. if c \<in> set (columns m) then Some (attr data c) else None)"
  have c: "construct m data = Inr inst"
    using dm by (simp add: construct_def inst_def)
  have dnone: "attr data ''id'' = VNone" using noid by (auto simp: attr_def split: option.splits)
  then have inone: "attr inst ''id'' = VNone" using attr_construct [OF c, of "''id''"] by simp
  define new where "new = inst(''id'' \<mapsto> VInt (next_id (working s ?tbl)))"
  have newc: "attr new k = attr data k" if "k \<noteq> ''id''" for k
    using that attr_construct [OF c, of k] by (simp add: new_def attr_upd)
  have newid: "attr new ''id'' = VInt (next_id (working s ?tbl))"
    by (simp add: new_def attr_upd)
  have newf: "new k = Some v" if "data k = Some v" for k v
  proof -
    have "k \<noteq> ''id''" using that noid by auto
    then show ?thesis using construct_field [OF c that] by (simp add: new_def)
  qed
  have newt: "check_types (integer_cast s) (column_types m) new"
    using typed unfolding new_def new_id_same(1) [OF inone] construct_same(1) [OF c] .
  show ?thesis
  proof (cases rule: session_insert_cases [of s m inst])
    case (ok s1 r)
    note n = session_insert_Inr [OF ok]
    have r: "r = new" using n(1) inone by (simp add: new_def)
    have up: "upsert s m data keys = (session_commit s1, Inr (Some new))"
      using upsert_inserted [OF kf c ok] r by simp
    have com: "committed (session_commit s1) = (committed s)(?tbl := committed s ?tbl @ [new])"
      using n(3) r clean by (simp add: session_commit_def)
    have "ids_ok (committed s ?tbl) \<longrightarrow> ids_ok (committed (session_commit s1) ?tbl)"
      using com newid by (simp add: ids_ok_def is_key_def)
    moreover have "integer_cast (session_commit s1) = integer_cast s"
      using n(3) by (simp add: session_commit_def)
    ultimately show ?thesis
      using up com newf by (simp add: session_commit_def)
  next
    case (failed s1 v)
    from session_insert_Inl [OF failed] inone
    have chk: "check_insert (working s) m new = Some v"
      and s1: "committed s1 = committed s" "integer_cast s1 = integer_cast s"
      by (auto simp: new_def)
    have a: "check_not_null (''id'' # not_null m) new = None"
    proof -
      have "attr new c \<noteq> VNone" if "c \<in> set (not_null m)" for c
        using nn that newc [of c] newid by (cases "c = ''id''") auto
      then show ?thesis using newid by (simp add: check_not_null_None)
    qed
    have d: "check_foreign_keys (working s) (foreign_keys m) new = None"
    proof -
      have "list_ex (\<lambda>r. attr r ''id'' = attr new (fst fk)) (working s (snd fk))"
        if "fk \<in> set (foreign_keys m)" for fk
      proof -
        have "fst fk \<in> dom data" using fk that keys by auto
        then have "fst fk \<noteq> ''id''" using noid by auto
        then show ?thesis using fk that newc clean by simp
      qed
      then show ?thesis by (simp add: check_foreign_keys_None)
    qed
    have cu: "check_unique ([''id''] # uniques m) (working s ?tbl) new = Some v"
      using chk a d
      by (auto simp: check_insert_def check_row_def split: option.splits)
    then obtain cols where v: "v = UniqueViolation cols"
      unfolding check_unique_def by blast
    have "check_row (working s) (''id'' # not_null m) ([''id''] # uniques m) (foreign_keys m)
        (working s ?tbl) new = Some (UniqueViolation cols)"
      using chk v by (simp add: check_insert_def)
    from check_row_unique [OF this]
    have cols: "cols \<in> set ([''id''] # uniques m)"
      and conf: "list_ex (conflicts cols new) (working s ?tbl)"
      by simp_all
    have "cols \<noteq> [''id'']"
    proof
      assume "cols = [''id'']"
      then obtain other where "other \<in> set (working s ?tbl)"
        and "attr other ''id'' = VInt (next_id (working s ?tbl))"
        using conf newid by (auto simp: list_ex_iff conflicts_iff)
      then show False using next_id_fresh by blast
    qed
    then have "cols \<in> set (uniques m)" using cols by simp
    then have ck: "set cols = set keys" using uq by simp
    have ins: "session_insert s m inst = (s1, Inl (IntegrityError (UniqueViolation cols)))"
      using failed v by simp
    have rb: "working (session_rollback s1) = committed s"
      using s1 by (simp add: session_rollback_def)
    have rc: "integer_cast (session_rollback s1) = integer_cast s"
      using s1 by (simp add: session_rollback_def)
    have "list_ex (filter_by ?kf) (working s ?tbl)"
      by (rule insert_conflict_found [OF kf c ins ck])
    then have "list_ex (filter_by ?kf) (working (session_rollback s1) ?tbl)"
      using rb clean by simp
    from query_first_finds [OF this] obtain s2 i r
      where q: "query_first (session_rollback s1) m ?kf = (s2, Some (i, r))"
      by blast
    note qs = query_first_Some [OF q]
    have w2: "working s2 = committed s" using qs(4) rb by simp
    have c2: "integer_cast s2 = integer_cast s" using qs(4) rc by simp
    have uq': "\<forall>u \<in> set (uniques m). set u \<subseteq> set keys" using uq by simp
    have fk': "\<forall>fk \<in> set (foreign_keys m). fst fk \<in> set keys" using fk by simp
    from update_after_conflict [OF kf c ins noid uq' fk' q rc]
    obtain s3 where u: "session_update s2 m i (r ++ data) = (s3, Inr (r ++ data))"
      by blast
    note us = session_update_Inr [OF u]
    have up: "upsert s m data keys = (session_commit s3, Inr (Some (r ++ data)))"
      using upsert_conflict [OF kf c ins] q u by simp
    have com: "committed (session_commit s3) = (committed s)(?tbl := (committed s ?tbl)[i := r ++ data])"
      using us(2) w2 by (simp add: session_commit_def)
    have c3: "integer_cast (session_commit s3) = integer_cast s"
      using us(2) c2 by (simp add: session_commit_def)
    have i: "i < length (committed s ?tbl)" and ri: "committed s ?tbl ! i = r"
      using qs(1,2) rb by simp_all
    have mem: "r ++ data \<in> set (committed (session_commit s3) ?tbl)"
      using com i by (simp add: set_update_memI)
    have "ids_ok (committed (session_commit s3) ?tbl)" if ok: "ids_ok (committed s ?tbl)"
    proof -
      have "is_key (attr r ''id'')"
        using ok i ri by (auto simp: ids_ok_def list_all_iff)
      then have "is_key (attr (r ++ data) ''id'')"
        using noid by (auto simp: attr_map_add)
      then show ?thesis
        using ok com by (auto simp: ids_ok_def list_all_iff dest: set_update_subset_insert [THEN subsetD])
    qed
    then show ?thesis
      using up com mem c3 by (simp add: session_commit_def map_add_def)
  next
    case (refused s1 t p)
    then have "\<not> check_types (integer_cast s) (column_types m) new"
      using session_insert_refused [OF refused] inone by (simp add: new_def)
    then show ?thesis using newt by simp
  qed
qed

text \<open>
  When a column refuses a value of the payload, the insert raises \<^verbatim>\<open>DataError\<close>, which
  \<^verbatim>\<open>upsert\<close> does not catch; the store is left as it was.
\<close>

lemma upsert_keyed_refused:
  fixes s :: "('f, 'd) session"
  assumes dm: "dom data \<subseteq> set (columns m)"
    and keys: "set keys \<subseteq> dom data"
    and noid: "''id'' \<notin> dom data"
    and untyped: "\<not> check_types (integer_cast s) (column_types m) data"
  shows "\<exists>s'. upsert s m data keys
            = (s', Inl (DataError (tablename m) (text_params (columns m) data)))
        \<and> working s' = working s \<and> committed s' = committed s
        \<and> integer_cast s' = integer_cast s"
proof -
  let ?kf = "map (\<lambda>key. (key, attr data key)) keys"
  let ?tbl = "tablename m"
  have kf: "key_fields_of data keys = Inr ?kf"
    by (rule key_fields_of_total [OF keys])
  define inst where "inst = (\<lambda>c. if c \<in> set (columns m) then Some (attr data c) else None)"
  have c: "construct m data = Inr inst"
    using dm by (simp add: construct_def inst_def)
  have dnone: "attr data ''id'' = VNone" using noid by (auto simp: attr_def split: option.splits)
  then have inone: "attr inst ''id'' = VNone" using attr_construct [OF c, of "''id''"] by simp
  define new where "new = inst(''id'' \<mapsto> VInt (next_id (working s ?tbl)))"
  have newt: "\<not> check_types (integer_cast s) (column_types m) new"
    using untyped unfolding new_def new_id_same(1) [OF inone] construct_same(1) [OF c] .
  have newp: "text_params (columns m) new = text_params (columns m) data"
    unfolding new_def new_id_same(2) [OF inone] construct_same(2) [OF c] ..
  have "session_insert s m inst =
      (s\<lparr>trace := trace s @ [EvInsertRefused ?tbl new]\<rparr>,
       Inl (DataError ?tbl (text_params (columns m) data)))"
    using inone newt newp by (simp add: session_insert_def Let_def new_def)
  from upsert_refused [OF kf c this] show ?thesis by simp
qed

subsection \<open>The shape of parsed items\<close>

lemma history_item_shape:
  assumes "history_item lib row = Some item"
  shows "\<exists>d p1 p2 p3 p4 p5. item = map_of
         [(''date'', VDate d), (''open_price'', VFloat p1), (''high_price'', VFloat p2),
          (''low_price'', VFloat p3), (''close_price'', VFloat p4), (''volume'', VFloat p5)]"
  using assms unfolding history_item_def
  by (simp del: map_of.simps split: Option.bind_splits) blast

lemma trade_item_shape:
  assumes "trade_item lib row = Some item"
  shows "\<exists>d p1 lp p2. (lp = VNone \<or> (\<exists>x. lp = VFloat x)) \<and> item = map_of
         [(''insider'', VStr (row ! 0)), (''relation'', VStr (row ! 1)), (''last_date'', VDate d),
          (''transaction_type'', VStr (row ! 3)), (''owner_type'', VStr (row ! 4)),
          (''shares_traded'', VFloat p1), (''last_price'', lp), (''shares_hold'', VFloat p2)]"
  using assms unfolding trade_item_def
  by (simp del: map_of.simps split: Option.bind_splits if_splits) blast+

lemma parse_history_items:
  assumes "parse_history lib ticker = Inr (history, warnings)" and "item \<in> set history"
  shows "\<exists>row. history_item lib row = Some item"
proof -
  from parse_history_loop [OF assms(1)] obtain table
    where "history_loop lib ticker table ([], []) = (history, warnings)" by blast
  then have "history = List.map_filter
      (\<lambda>row. if length row = 6 then history_item lib row else None) table"
    by (simp add: history_loop_acc)
  then show ?thesis using assms(2) by (auto simp: set_map_filter split: if_splits)
qed

lemma parse_trades_items:
  assumes "parse_trades lib ticker page = Inr (trades, warnings)" and "item \<in> set trades"
  shows "\<exists>row. trade_item lib row = Some item"
proof -
  have "trades_loop lib ticker page [] ([], []) = (trades, warnings)
      \<or> (\<exists>table. trades_loop lib ticker page table ([], []) = (trades, warnings))"
    using assms(1) by (auto simp: parse_trades_def split: sum.splits if_splits)
  then have "\<exists>table. trades_loop lib ticker page table ([], []) = (trades, warnings)"
    by blast
  then obtain table where "trades_loop lib ticker page table ([], []) = (trades, warnings)"
    by blast
  then have "trades = List.map_filter
      (\<lambda>row. if length row = 8 then trade_item lib row else None) table"
    by (simp add: trades_loop_acc)
  then show ?thesis using assms(2) by (auto simp: set_map_filter split: if_splits)
qed

subsection \<open>The upserts of the tasks\<close>

lemma upsert_stock_returns:
  fixes s :: "('f, 'd) session"
  assumes clean: "working s = committed s"
    and typed: "refusal (integer_cast s) Stock
                  (map_of [(''ticker'', VStr ticker)] :: ('f, 'd) pydict) = None"
  shows "\<exists>s' r. upsert s Stock (map_of [(''ticker'', VStr ticker)]) [''ticker'']
            = (s', Inr (Some r))
        \<and> working s' = committed s'
        \<and> (\<forall>t. t \<noteq> ''stock'' \<longrightarrow> committed s' t = committed s t)
        \<and> r \<in> set (committed s' ''stock'')
        \<and> (ids_ok (committed s ''stock'') \<longrightarrow> ids_ok (committed s' ''stock''))
        \<and> integer_cast s' = integer_cast s"
proof -
  let ?data = "map_of [(''ticker'', VStr ticker)] :: ('f, 'd) pydict"
  have ty: "check_types (integer_cast s) (column_types Stock) ?data"
    using typed by (simp add: refusal_def split: if_splits)
  have "\<exists>s' r'. upsert s Stock ?data [''ticker''] = (s', Inr (Some r'))
        \<and> working s' = committed s'
        \<and> (\<forall>t. t \<noteq> tablename Stock \<longrightarrow> committed s' t = committed s t)
        \<and> r' \<in> set (committed s' (tablename Stock))
        \<and> (ids_ok (committed s (tablename Stock)) \<longrightarrow> ids_ok (committed s' (tablename Stock)))
        \<and> (\<forall>k v. ?data k = Some v \<longrightarrow> r' k = Some v)
        \<and> integer_cast s' = integer_cast s"
    by (rule upsert_keyed_ok [OF clean _ _ _ _ _ _ ty]) (simp_all add: Stock_def attr_def)
  then show ?thesis by (auto simp: Stock_def)
qed

lemma upsert_stock_refused:
  fixes s :: "('f, 'd) session"
  assumes "refusal (integer_cast s) Stock
             (map_of [(''ticker'', VStr ticker)] :: ('f, 'd) pydict) = Some e"
  shows "\<exists>s'. upsert s Stock (map_of [(''ticker'', VStr ticker)]) [''ticker''] = (s', Inl e)
        \<and> working s' = working s \<and> committed s' = committed s
        \<and> integer_cast s' = integer_cast s"
proof -
  let ?data = "map_of [(''ticker'', VStr ticker)] :: ('f, 'd) pydict"
  have ty: "\<not> check_types (integer_cast s) (column_types Stock) ?data"
    and e: "e = DataError (tablename Stock) (text_params (columns Stock) ?data)"
    using assms by (simp_all add: refusal_def split: if_splits)
  have "\<exists>s'. upsert s Stock ?data [''ticker'']
            = (s', Inl (DataError (tablename Stock) (text_params (columns Stock) ?data)))
        \<and> working s' = working s \<and> committed s' = committed s
        \<and> integer_cast s' = integer_cast s"
    by (rule upsert_keyed_refused [OF _ _ _ ty]) (simp_all add: Stock_def)
  then show ?thesis using e by simp
qed

lemma upsert_insider_returns:
  fixes s :: "('f, 'd) session"
  assumes clean: "working s = committed s"
    and typed: "refusal (integer_cast s) Insider
        (map_of [(''name'', VStr name), (''relation'', VStr relation)] :: ('f, 'd) pydict) = None"
  shows "\<exists>s' r. upsert s Insider (map_of [(''name'', VStr name), (''relation'', VStr relation)])
              [''name''] = (s', Inr (Some r))
        \<and> working s' = committed s'
        \<and> (\<forall>t. t \<noteq> ''insider'' \<longrightarrow> committed s' t = committed s t)
        \<and> r \<in> set (committed s' ''insider'')
        \<and> (ids_ok (committed s ''insider'') \<longrightarrow> ids_ok (committed s' ''insider''))
        \<and> integer_cast s' = integer_cast s"
proof -
  let ?data = "map_of [(''name'', VStr name), (''relation'', VStr relation)] :: ('f, 'd) pydict"
  have ty: "check_types (integer_cast s) (column_types Insider) ?data"
    using typed by (simp add: refusal_def split: if_splits)
  have "\<exists>s' r'. upsert s Insider ?data [''name''] = (s', Inr (Some r'))
        \<and> working s' = committed s'
        \<and> (\<forall>t. t \<noteq> tablename Insider \<longrightarrow> committed s' t = committed s t)
        \<and> r' \<in> set (committed s' (tablename Insider))
        \<and> (ids_ok (committed s (tablename Insider)) \<longrightarrow> ids_ok (committed s' (tablename Insider)))
        \<and> (\<forall>k v. ?data k = Some v \<longrightarrow> r' k = Some v)
        \<and> integer_cast s' = integer_cast s"
    by (rule upsert_keyed_ok [OF clean _ _ _ _ _ _ ty]) (simp_all add: Insider_def attr_def)
  then show ?thesis by (auto simp: Insider_def)
qed

lemma upsert_insider_refused:
  fixes s :: "('f, 'd) session"
  assumes "refusal (integer_cast s) Insider
      (map_of [(''name'', VStr name), (''relation'', VStr relation)] :: ('f, 'd) pydict) = Some e"
  shows "\<exists>s'. upsert s Insider (map_of [(''name'', VStr name), (''relation'', VStr relation)])
              [''name''] = (s', Inl e)
        \<and> working s' = working s \<and> committed s' = committed s
        \<and> integer_cast s' = integer_cast s"
proof -
  let ?data = "map_of [(''name'', VStr name), (''relation'', VStr relation)] :: ('f, 'd) pydict"
  have ty: "\<not> check_types (integer_cast s) (column_types Insider) ?data"
    and e: "e = DataError (tablename Insider) (text_params (columns Insider) ?data)"
    using assms by (simp_all add: refusal_def split: if_splits)
  have "\<exists>s'. upsert s Insider ?data [''name'']
            = (s', Inl (DataError (tablename Insider) (text_params (columns Insider) ?data)))
        \<and> working s' = working s \<and> committed s' = committed s
        \<and> integer_cast s' = integer_cast s"
    by (rule upsert_keyed_refused [OF _ _ _ ty]) (simp_all add: Insider_def)
  then show ?thesis using e by simp
qed

text \<open>The columns of a quote accept every parsed item.\<close>

lemma upsert_quote_returns:
  fixes s :: "('f, 'd) session"
  assumes clean: "working s = committed s"
    and item: "history_item lib row = Some item"
    and sid: "is_key stock_id"
    and ex: "list_ex (\<lambda>r. attr r ''id'' = stock_id) (committed s ''stock'')"
  shows "\<exists>s' r. upsert s Quote (item(''stock_id'' \<mapsto> stock_id)) [''date'', ''stock_id'']
              = (s', Inr (Some r))
        \<and> working s' = committed s'
        \<and> (\<forall>t. t \<noteq> ''quote'' \<longrightarrow> committed s' t = committed s t)
        \<and> integer_cast s' = integer_cast s"
proof -
  from history_item_shape [OF item] obtain d p1 p2 p3 p4 p5 where it: "item = map_of
         [(''date'', VDate d), (''open_price'', VFloat p1), (''high_price'', VFloat p2),
          (''low_price'', VFloat p3), (''close_price'', VFloat p4), (''volume'', VFloat p5)]"
    by blast
  from sid obtain k where k: "stock_id = VInt k"
    by (auto simp: is_key_def split: val.splits)
  let ?data = "item(''stock_id'' \<mapsto> stock_id)"
  have "\<exists>s' r'. upsert s Quote ?data [''date'', ''stock_id''] = (s', Inr (Some r'))
        \<and> working s' = committed s'
        \<and> (\<forall>t. t \<noteq> tablename Quote \<longrightarrow> committed s' t = committed s t)
        \<and> r' \<in> set (committed s' (tablename Quote))
        \<and> (ids_ok (committed s (tablename Quote)) \<longrightarrow> ids_ok (committed s' (tablename Quote)))
        \<and> (\<forall>k v. ?data k = Some v \<longrightarrow> r' k = Some v)
        \<and> integer_cast s' = integer_cast s"
  proof (rule upsert_keyed_ok [OF clean])
    show "dom ?data \<subseteq> set (columns Quote)" by (auto simp: it Quote_def split: if_splits)
    show "set [''date'', ''stock_id''] \<subseteq> dom ?data" by (simp add: it)
    show "''id'' \<notin> dom ?data" by (simp add: it)
    show "\<forall>c \<in> set (not_null Quote). attr ?data c \<noteq> VNone"
      using k by (simp add: it Quote_def attr_def)
    show "\<forall>u \<in> set (uniques Quote). set u = set [''date'', ''stock_id'']"
      by (auto simp: Quote_def)
    show "\<forall>fk \<in> set (foreign_keys Quote). fst fk \<in> set [''date'', ''stock_id'']
               \<and> list_ex (\<lambda>r. attr r ''id'' = attr ?data (fst fk)) (committed s (snd fk))"
      using ex by (simp add: Quote_def attr_def)
    show "check_types (integer_cast s) (column_types Quote) ?data"
      using k by (simp add: check_types_def it Quote_def attr_def)
  qed
  then show ?thesis by (auto simp: Quote_def)
qed

lemma quotes_loop_returns:
  fixes s :: "('f, 'd) session"
  assumes "working s = committed s"
    and "\<forall>item \<in> set history. \<exists>row. history_item lib row = Some item"
    and "is_key (attr r ''id'')" and "r \<in> set (committed s ''stock'')"
  shows "\<exists>s'. quotes_loop s (Some r) history = (s', Inr ())
        \<and> working s' = committed s'
        \<and> (\<forall>t. t \<noteq> ''quote'' \<longrightarrow> committed s' t = committed s t)
        \<and> integer_cast s' = integer_cast s"
  using assms
proof (induction history arbitrary: s)
  case Nil
  then show ?case by simp
next
  case (Cons item history)
  from Cons.prems(2) obtain row where item: "history_item lib row = Some item" by auto
  have ex: "list_ex (\<lambda>x. attr x ''id'' = attr r ''id'') (committed s ''stock'')"
    using Cons.prems(4) by (auto simp: list_ex_iff)
  from upsert_quote_returns [OF Cons.prems(1) item Cons.prems(3) ex]
  obtain s1 q where up: "upsert s Quote (item(''stock_id'' \<mapsto> attr r ''id''))
      [''date'', ''stock_id''] = (s1, Inr (Some q))"
    and c1: "working s1 = committed s1"
    and o1: "\<forall>t. t \<noteq> ''quote'' \<longrightarrow> committed s1 t = committed s t"
    and k1: "integer_cast s1 = integer_cast s"
    by blast
  have r1: "r \<in> set (committed s1 ''stock'')" using o1 Cons.prems(4) by simp
  have h: "\<forall>item \<in> set history. \<exists>row. history_item lib row = Some item"
    using Cons.prems(2) by simp
  from Cons.IH [OF c1 h Cons.prems(3) r1]
  obtain s' where l: "quotes_loop s1 (Some r) history = (s', Inr ())"
    and c': "working s' = committed s'"
    and o': "\<forall>t. t \<noteq> ''quote'' \<longrightarrow> committed s' t = committed s1 t"
    and k': "integer_cast s' = integer_cast s1"
    by blast
  have "quotes_loop s (Some r) (item # history) = (s', Inr ())"
    using up l by (simp add: instance_id_def)
  then show ?case using c' o' o1 k' k1 by simp
qed

lemma session_insert_fresh:
  fixes s :: "('f, 'd) session"
  assumes noid: "attr inst ''id'' = VNone"
    and nn: "\<forall>c \<in> set (not_null m). c \<noteq> ''id'' \<longrightarrow> attr inst c \<noteq> VNone"
    and uq: "uniques m = []"
    and fk: "\<forall>fk \<in> set (foreign_keys m). fst fk \<noteq> ''id''
               \<and> list_ex (\<lambda>r. attr r ''id'' = attr inst (fst fk)) (working s (snd fk))"
    and typed: "check_types (integer_cast s) (column_types m) inst"
  shows "\<exists>s1 new. session_insert s m inst = (s1, Inr new)
          \<and> working s1 = (working s)(tablename m := working s (tablename m) @ [new])
          \<and> committed s1 = committed s \<and> integer_cast s1 = integer_cast s"
proof -
  let ?tbl = "tablename m"
  define new where "new = inst(''id'' \<mapsto> VInt (next_id (working s ?tbl)))"
  have newid: "attr new ''id'' = VInt (next_id (working s ?tbl))"
    by (simp add: new_def attr_upd)
  have newc: "attr new c = attr inst c" if "c \<noteq> ''id''" for c
    using that by (simp add: new_def attr_upd)
  have a: "check_not_null (''id'' # not_null m) new = None"
  proof -
    have "attr new c \<noteq> VNone" if "c \<in> set (not_null m)" for c
      using nn that newc [of c] newid by (cases "c = ''id''") auto
    then show ?thesis using newid by (simp add: check_not_null_None)
  qed
  have b: "check_unique ([''id''] # uniques m) (working s ?tbl) new = None"
  proof -
    have "\<not> list_ex (conflicts [''id''] new) (working s ?tbl)"
      using newid next_id_fresh [of _ "working s ?tbl"]
      by (auto simp: list_ex_iff conflicts_iff)
    then show ?thesis using uq by (simp add: check_unique_None)
  qed
  have d: "check_foreign_keys (working s) (foreign_keys m) new = None"
    using fk newc by (simp add: check_foreign_keys_None)
  have "check_insert (working s) m new = None"
    using a b d by (simp add: check_insert_def check_row_None)
  moreover have "check_types (integer_cast s) (column_types m) new"
    using typed unfolding new_def new_id_same(1) [OF noid] .
  ultimately show ?thesis
    using noid by (simp add: session_insert_def Let_def new_def)
qed

lemma session_insert_untyped:
  fixes s :: "('f, 'd) session"
  assumes noid: "attr inst ''id'' = VNone"
    and untyped: "\<not> check_types (integer_cast s) (column_types m) inst"
  shows "\<exists>s1. session_insert s m inst
           = (s1, Inl (DataError (tablename m) (text_params (columns m) inst)))
          \<and> working s1 = working s \<and> committed s1 = committed s
          \<and> integer_cast s1 = integer_cast s"
proof -
  let ?tbl = "tablename m"
  define new where "new = inst(''id'' \<mapsto> VInt (next_id (working s ?tbl)))"
  have "\<not> check_types (integer_cast s) (column_types m) new"
    using untyped unfolding new_def new_id_same(1) [OF noid] .
  moreover have "text_params (columns m) new = text_params (columns m) inst"
    unfolding new_def new_id_same(2) [OF noid] ..
  ultimately show ?thesis
    using noid by (simp add: session_insert_def Let_def new_def)
qed

subsection \<open>One trade\<close>

text \<open>
  \<^verbatim>\<open>store_trade\<close> on a parsed trade ends as the values of the trade alone decide: with the
  refusal of the insider or of the trade, or else with the trade stored.
\<close>

lemma store_trade_outcome:
  fixes s :: "('f, 'd) session"
  assumes clean: "working s = committed s"
    and ids: "ids_ok (committed s ''insider'')"
    and item: "trade_item lib row = Some trade"
    and rid: "is_key (attr r ''id'')" and r: "r \<in> set (committed s ''stock'')"
  shows "\<exists>s'. store_trade s (Some r) trade
            = (s', case trade_refusal (integer_cast s) trade of
                     Some e \<Rightarrow> Inl e
                   | None \<Rightarrow> Inr ())
        \<and> working s' = committed s'
        \<and> committed s' ''stock'' = committed s ''stock''
        \<and> ids_ok (committed s' ''insider'')
        \<and> integer_cast s' = integer_cast s"
proof -
  from trade_item_shape [OF item] obtain d p1 lp p2 where
    lp: "lp = VNone \<or> (\<exists>x. lp = VFloat x)" and it: "trade = map_of
         [(''insider'', VStr (row ! 0)), (''relation'', VStr (row ! 1)), (''last_date'', VDate d),
          (''transaction_type'', VStr (row ! 3)), (''owner_type'', VStr (row ! 4)),
          (''shares_traded'', VFloat p1), (''last_price'', lp), (''shares_hold'', VFloat p2)]"
    by blast
  let ?cast = "integer_cast s"
  let ?idata = "map_of [(''name'', VStr (row ! 0)), (''relation'', VStr (row ! 1))]
                  :: ('f, 'd) pydict"
  define trade2 where "trade2 = trade(''insider'' := None, ''relation'' := None)"
  have p1: "dict_pop trade ''insider'' = Inr (VStr (row ! 0), trade(''insider'' := None))"
    by (simp add: dict_pop_def it)
  have p2: "dict_pop (trade(''insider'' := None)) ''relation'' = Inr (VStr (row ! 1), trade2)"
    by (simp add: dict_pop_def it trade2_def)
  have idata: "map_of [(''name'', attr trade ''insider''), (''relation'', attr trade ''relation'')]
      = ?idata"
    by (simp add: it attr_def)
  show ?thesis
  proof (cases "refusal ?cast Insider ?idata")
    case (Some e)
    from upsert_insider_refused [OF Some]
    obtain s1 where up: "upsert s Insider ?idata [''name''] = (s1, Inl e)"
      and w1: "working s1 = working s" and c1: "committed s1 = committed s"
      and k1: "integer_cast s1 = integer_cast s"
      by blast
    have "store_trade s (Some r) trade = (s1, Inl e)"
      using p1 p2 up by (simp add: store_trade_def)
    moreover have "trade_refusal ?cast trade = Some e"
      using Some idata by (simp add: trade_refusal_def)
    ultimately show ?thesis using w1 c1 k1 clean ids by simp
  next
    case None
    from upsert_insider_returns [OF clean None]
    obtain s1 ins where up: "upsert s Insider ?idata [''name''] = (s1, Inr (Some ins))"
      and c1: "working s1 = committed s1"
      and o1: "\<forall>t. t \<noteq> ''insider'' \<longrightarrow> committed s1 t = committed s t"
      and m1: "ins \<in> set (committed s1 ''insider'')"
      and i1: "ids_ok (committed s ''insider'') \<longrightarrow> ids_ok (committed s1 ''insider'')"
      and k1: "integer_cast s1 = integer_cast s"
      by blast
    have ids1: "ids_ok (committed s1 ''insider'')" using i1 ids by simp
    then have iid: "is_key (attr ins ''id'')"
      using m1 by (auto simp: ids_ok_def list_all_iff)
    from rid obtain a where a: "attr r ''id'' = VInt a"
      by (auto simp: is_key_def split: val.splits)
    from iid obtain b where b: "attr ins ''id'' = VInt b"
      by (auto simp: is_key_def split: val.splits)
    have r1: "r \<in> set (committed s1 ''stock'')" using o1 r by simp
    define inst :: "('f, 'd) row" where "inst = (\<lambda>c. if c \<in> set (columns Trade)
        then Some (attr (trade2(''stock_id'' \<mapsto> attr r ''id'', ''insider_id'' \<mapsto> attr ins ''id'')) c)
        else None)"
    have nt: "new_trade (attr r ''id'') (attr ins ''id'') trade2 = Inr inst"
      by (auto simp: new_trade_def construct_def inst_def trade2_def it Trade_def
          split: if_splits)
    have noid: "attr inst ''id'' = VNone"
      by (simp add: inst_def trade2_def it Trade_def attr_def)
    have same: "attr inst c = attr trade c
        \<or> ((attr inst c = VNone \<or> is_key (attr inst c))
           \<and> (attr trade c = VNone \<or> is_key (attr trade c)))"
      if "c \<in> set (columns Trade)" for c
      using that a b by (auto simp: inst_def trade2_def it Trade_def attr_def is_key_def)
    have ty: "check_types ?cast (column_types Trade) inst
        = check_types ?cast (column_types Trade) trade"
      by (rule check_types_same) (rule same, auto simp: Trade_def)
    have tp: "text_params (columns Trade) inst = text_params (columns Trade) trade"
      by (rule text_params_same) (rule same)
    have tr: "trade_refusal ?cast trade = refusal ?cast Trade trade"
      using None idata by (simp add: trade_refusal_def)
    show ?thesis
    proof (cases "check_types ?cast (column_types Trade) trade")
      case True
      have "\<exists>s2 new. session_insert s1 Trade inst = (s2, Inr new)
              \<and> working s2 = (working s1)(tablename Trade := working s1 (tablename Trade) @ [new])
              \<and> committed s2 = committed s1 \<and> integer_cast s2 = integer_cast s1"
      proof (rule session_insert_fresh [OF noid])
        show "\<forall>c \<in> set (not_null Trade). c \<noteq> ''id'' \<longrightarrow> attr inst c \<noteq> VNone"
          using a b by (simp add: inst_def trade2_def it Trade_def attr_def)
        show "uniques Trade = []" by (simp add: Trade_def)
        have "list_ex (\<lambda>x. attr x ''id'' = attr r ''id'') (working s1 ''stock'')"
          using r1 c1 by (auto simp: list_ex_iff)
        moreover have "list_ex (\<lambda>x. attr x ''id'' = attr ins ''id'') (working s1 ''insider'')"
          using m1 c1 by (auto simp: list_ex_iff)
        ultimately show "\<forall>fk \<in> set (foreign_keys Trade). fst fk \<noteq> ''id''
                   \<and> list_ex (\<lambda>r. attr r ''id'' = attr inst (fst fk)) (working s1 (snd fk))"
          by (simp add: inst_def trade2_def it Trade_def attr_def)
        show "check_types (integer_cast s1) (column_types Trade) inst"
          using True ty k1 by simp
      qed
      then obtain s2 new where ins: "session_insert s1 Trade inst = (s2, Inr new)"
        and w2: "working s2 = (working s1)(''trade'' := working s1 ''trade'' @ [new])"
        and k2: "integer_cast s2 = integer_cast s1"
        by (auto simp: Trade_def)
      have st: "store_trade s (Some r) trade = (session_commit s2, Inr ())"
        using p1 p2 up nt ins by (simp add: store_trade_def instance_id_def)
      have "committed (session_commit s2) ''stock'' = committed s ''stock''"
        using w2 c1 o1 by (simp add: session_commit_def)
      moreover have "committed (session_commit s2) ''insider'' = committed s1 ''insider''"
        using w2 c1 by (simp add: session_commit_def)
      moreover have "trade_refusal ?cast trade = None"
        using tr True by (simp add: refusal_def)
      ultimately show ?thesis
        using st ids1 k1 k2 by (simp add: session_commit_def)
    next
      case False
      then have "\<not> check_types (integer_cast s1) (column_types Trade) inst"
        using ty k1 by simp
      from session_insert_untyped [OF noid this]
      obtain s2 where ins: "session_insert s1 Trade inst
           = (s2, Inl (DataError (tablename Trade) (text_params (columns Trade) inst)))"
        and w2: "working s2 = working s1" and c2: "committed s2 = committed s1"
        and k2: "integer_cast s2 = integer_cast s1"
        by blast
      have st: "store_trade s (Some r) trade
          = (s2, Inl (DataError (tablename Trade) (text_params (columns Trade) trade)))"
        using p1 p2 up nt ins tp by (simp add: store_trade_def instance_id_def)
      moreover have "trade_refusal ?cast trade
          = Some (DataError (tablename Trade) (text_params (columns Trade) trade))"
        using tr False by (simp add: refusal_def)
      moreover have "committed s2 ''stock'' = committed s ''stock''"
        using c2 o1 by simp
      ultimately show ?thesis
        using w2 c2 c1 ids1 k1 k2 by simp
    qed
  qed
qed

text \<open>
  The loop over the parsed trades ends with the first refusal among them, or stores them
  all.
\<close>

lemma trades_store_loop_outcome:
  fixes s :: "('f, 'd) session"
  assumes "working s = committed s" and "ids_ok (committed s ''insider'')"
    and "\<forall>trade \<in> set trades. \<exists>row. trade_item lib row = Some trade"
    and "is_key (attr r ''id'')" and "r \<in> set (committed s ''stock'')"
  shows "\<exists>s'. trades_store_loop s (Some r) trades
            = (s', case List.map_filter (trade_refusal (integer_cast s)) trades of
                     e # _ \<Rightarrow> Inl e
                   | [] \<Rightarrow> Inr ())
        \<and> working s' = committed s'
        \<and> committed s' ''stock'' = committed s ''stock''
        \<and> ids_ok (committed s' ''insider'')
        \<and> integer_cast s' = integer_cast s"
  using assms
proof (induction trades arbitrary: s)
  case Nil
  then show ?case by (simp add: List.map_filter_simps)
next
  case (Cons trade trades)
  from Cons.prems(3) obtain row where item: "trade_item lib row = Some trade" by auto
  from store_trade_outcome [OF Cons.prems(1,2) item Cons.prems(4,5)]
  obtain s1 where st: "store_trade s (Some r) trade
            = (s1, case trade_refusal (integer_cast s) trade of
                     Some e \<Rightarrow> Inl e
                   | None \<Rightarrow> Inr ())"
    and c1: "working s1 = committed s1"
    and k1: "committed s1 ''stock'' = committed s ''stock''"
    and i1: "ids_ok (committed s1 ''insider'')"
    and g1: "integer_cast s1 = integer_cast s"
    by blast
  show ?case
  proof (cases "trade_refusal (integer_cast s) trade")
    case (Some e)
    then have "trades_store_loop s (Some r) (trade # trades) = (s1, Inl e)"
      using st by simp
    then show ?thesis using Some c1 k1 i1 g1 by (simp add: List.map_filter_simps)
  next
    case None
    have r1: "r \<in> set (committed s1 ''stock'')" using k1 Cons.prems(5) by simp
    have h: "\<forall>trade \<in> set trades. \<exists>row. trade_item lib row = Some trade"
      using Cons.prems(3) by simp
    from Cons.IH [OF c1 i1 h Cons.prems(4) r1]
    obtain s' where l: "trades_store_loop s1 (Some r) trades
            = (s', case List.map_filter (trade_refusal (integer_cast s1)) trades of
                     e # _ \<Rightarrow> Inl e
                   | [] \<Rightarrow> Inr ())"
      and c': "working s' = committed s'"
      and k': "committed s' ''stock'' = committed s1 ''stock''"
      and i': "ids_ok (committed s' ''insider'')"
      and g': "integer_cast s' = integer_cast s1"
      by blast
    have "trades_store_loop s (Some r) (trade # trades)
        = (s', case List.map_filter (trade_refusal (integer_cast s)) (trade # trades) of
                     e # _ \<Rightarrow> Inl e
                   | [] \<Rightarrow> Inr ())"
      using st l None g1 by (simp add: List.map_filter_simps)
    then show ?thesis using c' k' k1 i' g' g1 by simp
  qed
qed

subsection \<open>Whole tasks\<close>

lemma fetch_history_outcome:
  fixes s :: "('f, 'd) session"
  assumes ok: "store_ok s"
  shows "\<exists>s' warnings. fetch_history lib s ticker
            = (s', warnings, task_outcome lib (integer_cast s) (HistoryTask ticker))
          \<and> store_ok s' \<and> integer_cast s' = integer_cast s"
proof (cases "parse_history lib ticker")
  case (Inl e)
  then show ?thesis using ok by (simp add: fetch_history_def)
next
  case (Inr hw)
  obtain history warnings where hw: "hw = (history, warnings)" by (cases hw)
  have ph: "parse_history lib ticker = Inr (history, warnings)" using Inr hw by simp
  have clean: "working s = committed s" and ids: "ids_ok (committed s ''stock'')"
    and idi: "ids_ok (committed s ''insider'')"
    using ok by (simp_all add: store_ok_def)
  let ?data = "map_of [(''ticker'', VStr ticker)] :: ('f, 'd) pydict"
  show ?thesis
  proof (cases "refusal (integer_cast s) Stock ?data")
    case (Some e)
    from upsert_stock_refused [OF Some]
    obtain s1 where up: "upsert s Stock ?data [''ticker''] = (s1, Inl e)"
      and c1: "committed s1 = committed s" and k1: "integer_cast s1 = integer_cast s"
      by blast
    have "fetch_history lib s ticker = (session_rollback s1, warnings, Inl e)"
      using ph up by (simp add: fetch_history_def)
    moreover have "store_ok (session_rollback s1)"
      using c1 ids idi by (simp add: store_ok_def session_rollback_def)
    moreover have "integer_cast (session_rollback s1) = integer_cast s"
      using k1 by (simp add: session_rollback_def)
    ultimately show ?thesis using ph Some by simp
  next
    case None
    from upsert_stock_returns [OF clean None]
    obtain s1 r where up: "upsert s Stock ?data [''ticker''] = (s1, Inr (Some r))"
      and c1: "working s1 = committed s1"
      and o1: "\<forall>t. t \<noteq> ''stock'' \<longrightarrow> committed s1 t = committed s t"
      and m1: "r \<in> set (committed s1 ''stock'')"
      and i1: "ids_ok (committed s ''stock'') \<longrightarrow> ids_ok (committed s1 ''stock'')"
      and k1: "integer_cast s1 = integer_cast s"
      by blast
    have ids1: "ids_ok (committed s1 ''stock'')" using i1 ids by simp
    then have rid: "is_key (attr r ''id'')" using m1 by (auto simp: ids_ok_def list_all_iff)
    have items: "\<forall>item \<in> set history. \<exists>row. history_item lib row = Some item"
      using parse_history_items [OF ph] by blast
    from quotes_loop_returns [OF c1 items rid m1]
    obtain s2 where l: "quotes_loop s1 (Some r) history = (s2, Inr ())"
      and c2: "working s2 = committed s2"
      and o2: "\<forall>t. t \<noteq> ''quote'' \<longrightarrow> committed s2 t = committed s1 t"
      and k2: "integer_cast s2 = integer_cast s1"
      by blast
    have "fetch_history lib s ticker
        = (s2, warnings, Inr (HistoryCollected (length history) ticker))"
      using ph up l by (simp add: fetch_history_def)
    moreover have "store_ok s2"
      using c2 o2 o1 ids1 idi by (simp add: store_ok_def)
    ultimately show ?thesis using ph None k1 k2 by simp
  qed
qed

lemma fetch_trades_outcome:
  fixes s :: "('f, 'd) session"
  assumes ok: "store_ok s"
  shows "\<exists>s' warnings. fetch_trades lib s ticker page
            = (s', warnings, task_outcome lib (integer_cast s) (TradesTask ticker page))
          \<and> store_ok s' \<and> integer_cast s' = integer_cast s"
proof (cases "parse_trades lib ticker page")
  case (Inl e)
  then show ?thesis using ok by (simp add: fetch_trades_def)
next
  case (Inr tw)
  obtain trades warnings where tw: "tw = (trades, warnings)" by (cases tw)
  have pt: "parse_trades lib ticker page = Inr (trades, warnings)" using Inr tw by simp
  have clean: "working s = committed s" and ids: "ids_ok (committed s ''stock'')"
    and idi: "ids_ok (committed s ''insider'')"
    using ok by (simp_all add: store_ok_def)
  let ?data = "map_of [(''ticker'', VStr ticker)] :: ('f, 'd) pydict"
  show ?thesis
  proof (cases "refusal (integer_cast s) Stock ?data")
    case (Some e)
    from upsert_stock_refused [OF Some]
    obtain s1 where up: "upsert s Stock ?data [''ticker''] = (s1, Inl e)"
      and c1: "committed s1 = committed s" and k1: "integer_cast s1 = integer_cast s"
      by blast
    have "fetch_trades lib s ticker page = (session_rollback s1, warnings, Inl e)"
      using pt up by (simp add: fetch_trades_def)
    moreover have "store_ok (session_rollback s1)"
      using c1 ids idi by (simp add: store_ok_def session_rollback_def)
    moreover have "integer_cast (session_rollback s1) = integer_cast s"
      using k1 by (simp add: session_rollback_def)
    ultimately show ?thesis using pt Some by simp
  next
    case None
    from upsert_stock_returns [OF clean None]
    obtain s1 r where up: "upsert s Stock ?data [''ticker''] = (s1, Inr (Some r))"
      and c1: "working s1 = committed s1"
      and o1: "\<forall>t. t \<noteq> ''stock'' \<longrightarrow> committed s1 t = committed s t"
      and m1: "r \<in> set (committed s1 ''stock'')"
      and i1: "ids_ok (committed s ''stock'') \<longrightarrow> ids_ok (committed s1 ''stock'')"
      and k1: "integer_cast s1 = integer_cast s"
      by blast
    have ids1: "ids_ok (committed s1 ''stock'')" using i1 ids by simp
    then have rid: "is_key (attr r ''id'')" using m1 by (auto simp: ids_ok_def list_all_iff)
    have idi1: "ids_ok (committed s1 ''insider'')" using o1 idi by simp
    have items: "\<forall>trade \<in> set trades. \<exists>row. trade_item lib row = Some trade"
      using parse_trades_items [OF pt] by blast
    from trades_store_loop_outcome [OF c1 idi1 items rid m1]
    obtain s2 where l: "trades_store_loop s1 (Some r) trades
            = (s2, case List.map_filter (trade_refusal (integer_cast s1)) trades of
                     e # _ \<Rightarrow> Inl e
                   | [] \<Rightarrow> Inr ())"
      and c2: "working s2 = committed s2"
      and k2: "committed s2 ''stock'' = committed s1 ''stock''"
      and i2: "ids_ok (committed s2 ''insider'')"
      and g2: "integer_cast s2 = integer_cast s1"
      by blast
    have ok2: "store_ok s2"
      using c2 k2 i2 ids1 by (simp add: store_ok_def)
    then have okr: "store_ok (session_rollback s2)"
      by (simp add: store_ok_def session_rollback_def)
    show ?thesis
    proof (cases "List.map_filter (trade_refusal (integer_cast s)) trades")
      case Nil
      then have "fetch_trades lib s ticker page
          = (s2, warnings, Inr (TradesCollected (length trades) ticker page))"
        using pt up l k1 by (simp add: fetch_trades_def)
      then show ?thesis using pt None Nil ok2 g2 k1 by simp
    next
      case (Cons e es)
      then have "fetch_trades lib s ticker page = (session_rollback s2, warnings, Inl e)"
        using pt up l k1 by (simp add: fetch_trades_def)
      moreover have "integer_cast (session_rollback s2) = integer_cast s"
        using g2 k1 by (simp add: session_rollback_def)
      ultimately show ?thesis using pt None Cons okr by simp
    qed
  qed
qed

lemma run_task_outcome:
  fixes s :: "('f, 'd) session"
  assumes "store_ok s"
  shows "\<exists>s' warnings. run_task lib s t = (s', warnings, task_outcome lib (integer_cast s) t)
           \<and> store_ok s' \<and> integer_cast s' = integer_cast s"
proof (cases t)
  case (HistoryTask ticker)
  then show ?thesis using fetch_history_outcome [OF assms, of lib ticker] by simp
next
  case (TradesTask ticker page)
  then show ?thesis using fetch_trades_outcome [OF assms, of lib ticker page] by simp
qed

lemma run_tasks_outcomes:
  fixes s :: "('f, 'd) session"
  assumes "store_ok s"
  shows "\<exists>s' warnings. run_tasks lib s ts
             = (s', warnings, map (task_outcome lib (integer_cast s)) ts)
           \<and> store_ok s' \<and> integer_cast s' = integer_cast s"
  using assms
proof (induction ts arbitrary: s)
  case Nil
  then show ?case by simp
next
  case (Cons t ts)
  from run_task_outcome [OF Cons.prems, of lib t]
  obtain s1 w1 where a: "run_task lib s t = (s1, w1, task_outcome lib (integer_cast s) t)"
    and ok1: "store_ok s1" and k1: "integer_cast s1 = integer_cast s"
    by blast
  from Cons.IH [OF ok1]
  obtain s2 w2 where b: "run_tasks lib s1 ts
      = (s2, w2, map (task_outcome lib (integer_cast s1)) ts)"
    and ok2: "store_ok s2" and k2: "integer_cast s2 = integer_cast s1"
    by blast
  show ?case using a b ok2 k1 k2 by simp
qed


section \<open>fetch\<close>

lemma map_Suc_upto: "map (\<lambda>p. p + 1) [i..j] = [i + 1..j + 1]"
proof (induction i j rule: upto.induct)
  case (1 i j)
  show ?case
  proof (cases "i \<le> j")
    case True
    then show ?thesis using 1 by (simp add: upto_rec1 [of i j] upto_rec1 [of "i + 1" "j + 1"])
  next
    case False
    then show ?thesis by simp
  qed
qed

lemma map_filter_app:
  "List.map_filter g (xs @ ys) = List.map_filter g xs @ List.map_filter g ys"
  by (simp add: List.map_filter_def)

lemma trade_pages: "map (\<lambda>page. TradesTask ticker (page + 1)) (py_range n) = map (TradesTask ticker) [1..n]"
proof -
  have "map (\<lambda>page. TradesTask ticker (page + 1)) (py_range n)
      = map (TradesTask ticker) (map (\<lambda>p. p + 1) [0..n - 1])"
    by (simp add: py_range_def)
  then show ?thesis by (simp add: map_Suc_upto)
qed

lemma submitted_eq:
  "submitted f tickers =
     concat (map (\<lambda>ticker. HistoryTask ticker #
                             map (TradesTask ticker) [1..max_trades_pages f]) tickers)"
  by (simp add: submitted_def trade_pages)

lemma length_submitted:
  "length (submitted f tickers) = length tickers * (1 + nat (max_trades_pages f))"
  by (induction tickers) (simp_all add: submitted_eq)

lemma history_tasks_submitted:
  "List.map_filter (\<lambda>t. case t of HistoryTask ticker \<Rightarrow> Some ticker | TradesTask ticker page \<Rightarrow> None)
     (submitted f tickers) = tickers"
proof (induction tickers)
  case Nil
  show ?case by (simp add: submitted_eq)
next
  case (Cons ticker tickers)
  have "List.map_filter (\<lambda>t. case t of HistoryTask ticker \<Rightarrow> Some ticker | TradesTask ticker page \<Rightarrow> None)
      (map (TradesTask ticker) pages) = []" for pages
    by (induction pages) simp_all
  then show ?case using Cons by (simp add: submitted_eq map_filter_app)
qed

lemma trades_tasks_submitted:
  "List.map_filter (\<lambda>t. case t of HistoryTask ticker \<Rightarrow> None | TradesTask ticker page \<Rightarrow> Some (ticker, page))
     (submitted f tickers) =
   concat (map (\<lambda>ticker. map (\<lambda>page. (ticker, page)) [1..max_trades_pages f]) tickers)"
proof (induction tickers)
  case Nil
  show ?case by (simp add: submitted_eq)
next
  case (Cons ticker tickers)
  have "List.map_filter (\<lambda>t. case t of HistoryTask ticker \<Rightarrow> None | TradesTask ticker page \<Rightarrow> Some (ticker, page))
      (map (TradesTask ticker) pages) = map (\<lambda>page. (ticker, page)) pages" for pages
    by (induction pages) simp_all
  then show ?case using Cons by (simp add: submitted_eq map_filter_app)
qed

text \<open>
  Running a list of tasks runs each of them, in the session that the tasks before it
  have left, and collects what each returns.
\<close>

lemma started_in_0: "started_in lib s ts 0 = s"
  by (simp add: started_in_def)

lemma started_in_Suc:
  "started_in lib s (t # ts) (Suc i) = started_in lib (fst (run_task lib s t)) ts i"
  by (simp add: started_in_def)

lemma run_tasks_steps:
  assumes "run_tasks lib s ts = (s', warnings, futures)"
  shows "s' = started_in lib s ts (length ts)
       \<and> length futures = length ts
       \<and> (\<forall>i < length ts.
            futures ! i = snd (snd (run_task lib (started_in lib s ts i) (ts ! i))))
       \<and> warnings = concat (map (\<lambda>i. fst (snd (run_task lib (started_in lib s ts i) (ts ! i))))
                              [0..<length ts])"
  using assms
proof (induction ts arbitrary: s s' warnings futures)
  case Nil
  then show ?case by (simp add: started_in_0)
next
  case (Cons t ts)
  obtain s1 w1 fu where a: "run_task lib s t = (s1, w1, fu)" by (metis prod_cases3)
  obtain s2 w2 fs where b: "run_tasks lib s1 ts = (s2, w2, fs)" by (metis prod_cases3)
  have r: "s' = s2" "warnings = w1 @ w2" "futures = fu # fs"
    using Cons.prems a b by simp_all
  note ih = Cons.IH [OF b]
  have s1: "fst (run_task lib s t) = s1" using a by simp
  have 1: "s' = started_in lib s (t # ts) (length (t # ts))"
    using ih r(1) by (simp add: started_in_Suc s1)
  have 2: "length futures = length (t # ts)" using ih r(3) by simp
  have 3: "futures ! i = snd (snd (run_task lib (started_in lib s (t # ts) i) ((t # ts) ! i)))"
    if "i < length (t # ts)" for i
  proof (cases i)
    case 0
    then show ?thesis using r(3) a by (simp add: started_in_0)
  next
    case (Suc j)
    then have "j < length ts" using that by simp
    then show ?thesis using ih r(3) Suc by (simp add: started_in_Suc s1)
  qed
  have "[0..<length (t # ts)] = 0 # map Suc [0..<length ts]"
    by (simp only: length_Cons upt_conv_Cons [OF zero_less_Suc] map_Suc_upt)
  then have 4: "warnings = concat (map (\<lambda>i. fst (snd (run_task lib
      (started_in lib s (t # ts) i) ((t # ts) ! i)))) [0..<length (t # ts)])"
    using ih r(2) a by (simp add: started_in_0 started_in_Suc s1 comp_def)
  show ?case using 1 2 3 4 by blast
qed

text \<open>
  C3. The tasks \<^verbatim>\<open>fetch\<close> submits are, for each ticker in order, one history task and
  the trade tasks of the pages 1 to \<^verbatim>\<open>max_trades_pages\<close>: one history task per ticker,
  that many trade tasks per ticker, nine tasks for three tickers and two pages.
  Every submitted task is run: the future at its position holds what the run of that
  very task returned, which is an exception or a result, and the warnings and the final
  session are those of these runs. \<^verbatim>\<open>fetch\<close> returns after it has logged the line of
  each future, a failure or a result, and then its closing line.
\<close>

theorem fetch_schedules:
  fixes s :: "('f, 'd) session"
  shows
  "submitted f tickers =
     concat (map (\<lambda>ticker. HistoryTask ticker #
                             map (TradesTask ticker) [1..max_trades_pages f]) tickers)
   \<and> List.map_filter (\<lambda>t. case t of HistoryTask ticker \<Rightarrow> Some ticker
                              | TradesTask ticker page \<Rightarrow> None) (submitted f tickers) = tickers
   \<and> List.map_filter (\<lambda>t. case t of HistoryTask ticker \<Rightarrow> None
                              | TradesTask ticker page \<Rightarrow> Some (ticker, page)) (submitted f tickers) =
       concat (map (\<lambda>ticker. map (\<lambda>page. (ticker, page)) [1..max_trades_pages f]) tickers)
   \<and> length (submitted f tickers) = length tickers * (1 + nat (max_trades_pages f))
   \<and> (length tickers = 3 \<and> max_trades_pages f = 2 \<longrightarrow> length (submitted f tickers) = 9)
   \<and> (\<exists>s' warnings futures.
         run_tasks lib s (submitted f tickers) = (s', warnings, futures)
       \<and> length futures = length (submitted f tickers)
       \<and> (\<forall>i < length (submitted f tickers).
            futures ! i = snd (snd (run_task lib (started_in lib s (submitted f tickers) i)
                                      (submitted f tickers ! i)))
          \<and> ((\<exists>e. futures ! i = Inl e \<and> log_future (futures ! i) = ErrorTaskFailed e)
             \<or> (\<exists>result. futures ! i = Inr result
                   \<and> log_future (futures ! i) = InfoTaskFinished result)))
       \<and> warnings =
           concat (map (\<lambda>i. fst (snd (run_task lib (started_in lib s (submitted f tickers) i)
                                        (submitted f tickers ! i))))
                     [0..<length (submitted f tickers)])
       \<and> s' = started_in lib s (submitted f tickers) (length (submitted f tickers))
       \<and> fetch lib f s tickers =
           (s', [InfoFetching (max_workers f)] @ warnings @ map log_future futures
                @ [InfoFinished]))"
proof (intro conjI impI)
  show "submitted f tickers =
     concat (map (\<lambda>ticker. HistoryTask ticker #
                             map (TradesTask ticker) [1..max_trades_pages f]) tickers)"
    by (rule submitted_eq)
  show "List.map_filter (\<lambda>t. case t of HistoryTask ticker \<Rightarrow> Some ticker
                              | TradesTask ticker page \<Rightarrow> None) (submitted f tickers) = tickers"
    by (rule history_tasks_submitted)
  show "List.map_filter (\<lambda>t. case t of HistoryTask ticker \<Rightarrow> None
                              | TradesTask ticker page \<Rightarrow> Some (ticker, page)) (submitted f tickers) =
       concat (map (\<lambda>ticker. map (\<lambda>page. (ticker, page)) [1..max_trades_pages f]) tickers)"
    by (rule trades_tasks_submitted)
  show "length (submitted f tickers) = length tickers * (1 + nat (max_trades_pages f))"
    by (rule length_submitted)
  show "length (submitted f tickers) = 9" if "length tickers = 3 \<and> max_trades_pages f = 2"
    using that by (simp add: length_submitted)
  let ?ts = "submitted f tickers"
  obtain s' warnings futures
    where r: "run_tasks lib s ?ts = (s', warnings, futures)"
    by (metis prod_cases3)
  note st = run_tasks_steps [OF r]
  have f: "fetch lib f s tickers =
           (s', [InfoFetching (max_workers f)] @ warnings @ map log_future futures
                @ [InfoFinished])"
    using r by (simp add: fetch_def)
  have t: "(\<exists>e. fu = Inl e \<and> log_future fu = ErrorTaskFailed e)
             \<or> (\<exists>result. fu = Inr result \<and> log_future fu = InfoTaskFinished result)" for fu
    by (cases fu) (simp_all add: log_future_def)
  have each: "\<forall>i < length ?ts.
            futures ! i = snd (snd (run_task lib (started_in lib s ?ts i) (?ts ! i)))
          \<and> ((\<exists>e. futures ! i = Inl e \<and> log_future (futures ! i) = ErrorTaskFailed e)
             \<or> (\<exists>result. futures ! i = Inr result
                   \<and> log_future (futures ! i) = InfoTaskFinished result))"
    using st t by blast
  show "\<exists>s' warnings futures.
         run_tasks lib s ?ts = (s', warnings, futures)
       \<and> length futures = length ?ts
       \<and> (\<forall>i < length ?ts.
            futures ! i = snd (snd (run_task lib (started_in lib s ?ts i) (?ts ! i)))
          \<and> ((\<exists>e. futures ! i = Inl e \<and> log_future (futures ! i) = ErrorTaskFailed e)
             \<or> (\<exists>result. futures ! i = Inr result
                   \<and> log_future (futures ! i) = InfoTaskFinished result)))
       \<and> warnings =
           concat (map (\<lambda>i. fst (snd (run_task lib (started_in lib s ?ts i) (?ts ! i))))
                     [0..<length ?ts])
       \<and> s' = started_in lib s ?ts (length ?ts)
       \<and> fetch lib f s tickers =
           (s', [InfoFetching (max_workers f)] @ warnings @ map log_future futures
                @ [InfoFinished])"
    using r st each f
    by (intro exI [of _ s'] exI [of _ warnings] exI [of _ futures]) blast
qed

lemma example_history_outcome:
  assumes "length t \<le> 5"
  shows "task_outcome (example_lib example_history_page) example_cast (HistoryTask t)
           = Inr (HistoryCollected 1 t)"
  using assms
  by (simp add: parse_history_def parse_page_def example_lib_def find_tag_def
      example_history_page_def dom_find_def parse_table_def find_all_def strip_def
      is_space_def history_item_def remove_commas_def numeral_text_def lit_def
      refusal_def check_types_def Stock_def attr_def)

lemma example_history_trades_outcome:
  "task_outcome (example_lib example_history_page) cast (TradesTask t n) =
      Inl (ParsingError [(''id'', ''quotes_content_left_lb_LastPage'')])"
  by (simp add: parse_trades_def parse_page_def example_lib_def find_tag_def
      example_history_page_def dom_find_def parse_trades_page_count_def lit_def)

lemma store_ok_empty: "store_ok empty_session"
  by (simp add: store_ok_def empty_session_def ids_ok_def)

theorem fetch_schedules_witness:
  "Fetcher_init 2 2 = Inr example_fetcher
   \<and> submitted example_fetcher [lit ''AAPL'', lit ''MSFT'', lit ''GOOG''] =
      [HistoryTask (lit ''AAPL''), TradesTask (lit ''AAPL'') 1, TradesTask (lit ''AAPL'') 2,
       HistoryTask (lit ''MSFT''), TradesTask (lit ''MSFT'') 1, TradesTask (lit ''MSFT'') 2,
       HistoryTask (lit ''GOOG''), TradesTask (lit ''GOOG'') 1, TradesTask (lit ''GOOG'') 2]
   \<and> length (submitted example_fetcher [lit ''AAPL'', lit ''MSFT'', lit ''GOOG'']) = 9
   \<and> (\<exists>s' warnings.
        fetch (example_lib example_history_page) example_fetcher empty_session
          [lit ''AAPL'', lit ''MSFT'', lit ''GOOG''] =
        (s', [InfoFetching 2] @ warnings @
          [InfoTaskFinished (HistoryCollected 1 (lit ''AAPL'')),
           ErrorTaskFailed (ParsingError [(''id'', ''quotes_content_left_lb_LastPage'')]),
           ErrorTaskFailed (ParsingError [(''id'', ''quotes_content_left_lb_LastPage'')]),
           InfoTaskFinished (HistoryCollected 1 (lit ''MSFT'')),
           ErrorTaskFailed (ParsingError [(''id'', ''quotes_content_left_lb_LastPage'')]),
           ErrorTaskFailed (ParsingError [(''id'', ''quotes_content_left_lb_LastPage'')]),
           InfoTaskFinished (HistoryCollected 1 (lit ''GOOG'')),
           ErrorTaskFailed (ParsingError [(''id'', ''quotes_content_left_lb_LastPage'')]),
           ErrorTaskFailed (ParsingError [(''id'', ''quotes_content_left_lb_LastPage'')]),
           InfoFinished]))"
proof -
  let ?tickers = "[lit ''AAPL'', lit ''MSFT'', lit ''GOOG'']"
  let ?lib = "example_lib example_history_page"
  note t = fetch_schedules [of example_fetcher ?tickers ?lib empty_session]
  have m: "max_trades_pages example_fetcher = 2" by (simp add: example_fetcher_def)
  have u: "[1..2::int] = [1, 2]" by (simp add: upto_rec1)
  have a: "submitted example_fetcher ?tickers =
      [HistoryTask (lit ''AAPL''), TradesTask (lit ''AAPL'') 1, TradesTask (lit ''AAPL'') 2,
       HistoryTask (lit ''MSFT''), TradesTask (lit ''MSFT'') 1, TradesTask (lit ''MSFT'') 2,
       HistoryTask (lit ''GOOG''), TradesTask (lit ''GOOG'') 1, TradesTask (lit ''GOOG'') 2]"
    using t by (simp add: m u)
  have b: "length (submitted example_fetcher ?tickers) = 9"
    using t m by simp
  from t obtain s' warnings futures where
    f: "fetch ?lib example_fetcher empty_session ?tickers =
           (s', [InfoFetching (max_workers example_fetcher)] @ warnings @ map log_future futures
                @ [InfoFinished])"
    and r: "run_tasks ?lib empty_session (submitted example_fetcher ?tickers)
       = (s', warnings, futures)"
    by blast
  from run_tasks_outcomes [OF store_ok_empty, of ?lib "submitted example_fetcher ?tickers"] r
  have "futures = map (task_outcome ?lib (integer_cast empty_session))
      (submitted example_fetcher ?tickers)"
    by auto
  then have "map log_future futures =
          [InfoTaskFinished (HistoryCollected 1 (lit ''AAPL'')),
           ErrorTaskFailed (ParsingError [(''id'', ''quotes_content_left_lb_LastPage'')]),
           ErrorTaskFailed (ParsingError [(''id'', ''quotes_content_left_lb_LastPage'')]),
           InfoTaskFinished (HistoryCollected 1 (lit ''MSFT'')),
           ErrorTaskFailed (ParsingError [(''id'', ''quotes_content_left_lb_LastPage'')]),
           ErrorTaskFailed (ParsingError [(''id'', ''quotes_content_left_lb_LastPage'')]),
           InfoTaskFinished (HistoryCollected 1 (lit ''GOOG'')),
           ErrorTaskFailed (ParsingError [(''id'', ''quotes_content_left_lb_LastPage'')]),
           ErrorTaskFailed (ParsingError [(''id'', ''quotes_content_left_lb_LastPage'')])]"
    unfolding a
    by (simp add: example_history_outcome example_history_trades_outcome log_future_def
        empty_session_def lit_def del: task_outcome.simps)
  then have c: "\<exists>s' warnings.
        fetch ?lib example_fetcher empty_session ?tickers =
        (s', [InfoFetching 2] @ warnings @
          [InfoTaskFinished (HistoryCollected 1 (lit ''AAPL'')),
           ErrorTaskFailed (ParsingError [(''id'', ''quotes_content_left_lb_LastPage'')]),
           ErrorTaskFailed (ParsingError [(''id'', ''quotes_content_left_lb_LastPage'')]),
           InfoTaskFinished (HistoryCollected 1 (lit ''MSFT'')),
           ErrorTaskFailed (ParsingError [(''id'', ''quotes_content_left_lb_LastPage'')]),
           ErrorTaskFailed (ParsingError [(''id'', ''quotes_content_left_lb_LastPage'')]),
           InfoTaskFinished (HistoryCollected 1 (lit ''GOOG'')),
           ErrorTaskFailed (ParsingError [(''id'', ''quotes_content_left_lb_LastPage'')]),
           ErrorTaskFailed (ParsingError [(''id'', ''quotes_content_left_lb_LastPage'')]),
           InfoFinished])"
    using f by (simp add: example_fetcher_def)
  show ?thesis using a b c by (simp add: Fetcher_init_def example_fetcher_def)
qed

text \<open>
  C7 as the specification states it does not hold for every ticker: the task upserts the
  stock before it stores any trade, the column \<^verbatim>\<open>ticker\<close> is a \<^verbatim>\<open>String(5)\<close>, and the
  \<^verbatim>\<open>DataError\<close> of a longer ticker is not caught by \<^verbatim>\<open>upsert\<close>. For a page beyond the
  page count \<^verbatim>\<open>parse_trades\<close> returns the empty list, and the task still fails.
\<close>

theorem long_ticker_beyond_last_page_counterexample:
  "parse_trades (example_lib (example_trades_page ''/symbol/aapl/insider-trades?page=7''))
     (lit ''TOOLONGTICKER'') 8 = Inr ([], [])
   \<and> snd (fetch_trades (example_lib (example_trades_page ''/symbol/aapl/insider-trades?page=7''))
        empty_session (lit ''TOOLONGTICKER'') 8) =
      ([], Inl (DataError ''stock'' [(''ticker'', lit ''TOOLONGTICKER'')]))
   \<and> snd (fetch_trades (example_lib (example_trades_page ''/symbol/aapl/insider-trades?page=7''))
        empty_session (lit ''TOOLONGTICKER'') 8) \<noteq>
      ([], Inr (TradesCollected 0 (lit ''TOOLONGTICKER'') 8))"
proof -
  let ?page = "example_trades_page ''/symbol/aapl/insider-trades?page=7''"
  let ?lib = "example_lib ?page"
  have pg: "parse_page ?lib
      (lit BASE_URL @ lit ''/symbol/'' @ py_lower ?lib (lit ''TOOLONGTICKER'')
        @ lit ''/insider-trades'') [(''page'', 8)] = Inr ?page"
    by (simp add: parse_page_def example_lib_def)
  have pt: "parse_trades ?lib (lit ''TOOLONGTICKER'') 8 = Inr ([], [])"
    by (rule parse_trades_beyond [OF pg example_page_count]) simp
  have "snd (fetch_trades ?lib empty_session (lit ''TOOLONGTICKER'') 8) =
      ([], Inl (DataError ''stock'' [(''ticker'', lit ''TOOLONGTICKER'')]))"
    unfolding fetch_trades_def pt
    by (simp add: store_defs empty_session_def Stock_def)
  then show ?thesis using pt by simp
qed

text \<open>
  C7, amended. When the page is fetched and its page count is below the requested page
  number, \<^verbatim>\<open>parse_trades\<close> returns the empty list without a warning, whatever the ticker.
  The task, started on a session without uncommitted changes, then returns its result
  message with zero items if the ticker has at most five characters, the length of the
  column that stores it; a longer ticker that ends in no blank makes the task fail with
  the \<^verbatim>\<open>DataError\<close> of the stock table.
\<close>

theorem trades_beyond_last_page:
  fixes s :: "('f, 'd) session"
  assumes clean: "working s = committed s"
    and page: "parse_page lib
                 (lit BASE_URL @ lit ''/symbol/'' @ py_lower lib ticker @ lit ''/insider-trades'')
                 [(''page'', page)] = Inr page_dom"
    and count: "parse_trades_page_count lib page_dom = Inr n"
    and beyond: "n < page"
  shows "parse_trades lib ticker page = Inr ([], [])
       \<and> (length ticker \<le> 5 \<longrightarrow>
            (\<exists>s'. fetch_trades lib s ticker page
                     = (s', [], Inr (TradesCollected 0 ticker page))))
       \<and> (5 < length ticker \<and> strip ticker = ticker \<longrightarrow>
            (\<exists>s'. fetch_trades lib s ticker page
                     = (s', [], Inl (DataError ''stock'' [(''ticker'', ticker)]))))"
proof (intro conjI impI)
  let ?data = "map_of [(''ticker'', VStr ticker)] :: ('f, 'd) pydict"
  show pt: "parse_trades lib ticker page = Inr ([], [])"
    by (rule parse_trades_beyond [OF page count beyond])
  show "\<exists>s'. fetch_trades lib s ticker page = (s', [], Inr (TradesCollected 0 ticker page))"
    if "length ticker \<le> 5"
  proof -
    have "refusal (integer_cast s) Stock ?data = None"
      using that by (simp add: refusal_def check_types_def Stock_def attr_def)
    from upsert_stock_returns [OF clean this]
    obtain s1 r where up: "upsert s Stock ?data [''ticker''] = (s1, Inr (Some r))"
      by blast
    have "fetch_trades lib s ticker page = (s1, [], Inr (TradesCollected 0 ticker page))"
      using pt up by (simp add: fetch_trades_def)
    then show ?thesis by blast
  qed
  show "\<exists>s'. fetch_trades lib s ticker page
                     = (s', [], Inl (DataError ''stock'' [(''ticker'', ticker)]))"
    if "5 < length ticker \<and> strip ticker = ticker"
  proof -
    have "refusal (integer_cast s) Stock ?data = Some (DataError ''stock'' [(''ticker'', ticker)])"
      using that
      by (simp add: refusal_def check_types_def Stock_def attr_def text_params_def
          List.map_filter_simps)
    from upsert_stock_refused [OF this]
    obtain s1 where up: "upsert s Stock ?data [''ticker'']
        = (s1, Inl (DataError ''stock'' [(''ticker'', ticker)]))"
      by blast
    have "fetch_trades lib s ticker page
        = (session_rollback s1, [], Inl (DataError ''stock'' [(''ticker'', ticker)]))"
      using pt up by (simp add: fetch_trades_def)
    then show ?thesis by blast
  qed
qed

theorem trades_beyond_last_page_witness:
  "parse_trades_page_count
      (example_lib (example_trades_page ''/symbol/aapl/insider-trades?page=7''))
      (example_trades_page ''/symbol/aapl/insider-trades?page=7'') = Inr 7
   \<and> parse_trades (example_lib (example_trades_page ''/symbol/aapl/insider-trades?page=7''))
        (lit ''AAPL'') 8 = Inr ([], [])
   \<and> (\<exists>s'. fetch_trades (example_lib (example_trades_page ''/symbol/aapl/insider-trades?page=7''))
        empty_session (lit ''AAPL'') 8 = (s', [], Inr (TradesCollected 0 (lit ''AAPL'') 8)))
   \<and> (\<exists>s'. fetch_trades (example_lib (example_trades_page ''/symbol/aapl/insider-trades?page=7''))
        empty_session (lit ''GOOGLE'') 8
          = (s', [], Inl (DataError ''stock'' [(''ticker'', lit ''GOOGLE'')])))"
proof -
  let ?page = "example_trades_page ''/symbol/aapl/insider-trades?page=7''"
  let ?lib = "example_lib ?page"
  have clean: "working empty_session = committed empty_session"
    by (simp add: empty_session_def)
  have pg: "parse_page ?lib
              (lit BASE_URL @ lit ''/symbol/'' @ py_lower ?lib t @ lit ''/insider-trades'')
              [(''page'', 8)] = Inr ?page" for t
    by (simp add: parse_page_def example_lib_def)
  have cnt: "parse_trades_page_count ?lib ?page = Inr 7"
    by (rule example_page_count)
  have lt: "(7::int) < 8" by simp
  have short: "length (lit ''AAPL'') \<le> 5" by (simp add: lit_def)
  have long: "5 < length (lit ''GOOGLE'') \<and> strip (lit ''GOOGLE'') = lit ''GOOGLE''"
    by (simp add: lit_def strip_def is_space_def)
  note a = trades_beyond_last_page [OF clean pg cnt lt, of "lit ''AAPL''"]
  note b = trades_beyond_last_page [OF clean pg cnt lt, of "lit ''GOOGLE''"]
  from a short have "parse_trades ?lib (lit ''AAPL'') 8 = Inr ([], [])"
    and "\<exists>s'. fetch_trades ?lib empty_session (lit ''AAPL'') 8
           = (s', [], Inr (TradesCollected 0 (lit ''AAPL'') 8))"
    by blast+
  moreover from b long have "\<exists>s'. fetch_trades ?lib empty_session (lit ''GOOGLE'') 8
          = (s', [], Inl (DataError ''stock'' [(''ticker'', lit ''GOOGLE'')]))"
    by blast
  ultimately show ?thesis using cnt by blast
qed





section \<open>The order of the statements of a task\<close>

lemma stored_ids_append:
  "stored_ids parent (a @ b) = stored_ids parent a @ stored_ids parent b"
  by (simp add: stored_ids_def map_filter_app)

lemma refs_known_append:
  assumes a: "refs_known K child col parent a"
    and b: "refs_known (K @ stored_ids parent a) child col parent b"
  shows "refs_known K child col parent (a @ b)"
  unfolding refs_known_def
proof (intro allI impI)
  fix j w
  assume j: "j < length (a @ b)" and w: "written ((a @ b) ! j) = Some (child, w)"
  show "attr w col \<in> set (K @ stored_ids parent (take j (a @ b)))"
  proof (cases "j < length a")
    case True
    then have "attr w col \<in> set (K @ stored_ids parent (take j a))"
      using a w by (simp add: refs_known_def nth_append)
    then show ?thesis using True by simp
  next
    case False
    then have jb: "j - length a < length b" using j by simp
    have "written (b ! (j - length a)) = Some (child, w)"
      using w False by (simp add: nth_append)
    then have "attr w col \<in> set ((K @ stored_ids parent a)
        @ stored_ids parent (take (j - length a) b))"
      using b jb by (simp add: refs_known_def)
    then show ?thesis using False by (simp add: stored_ids_append)
  qed
qed

lemma refs_known_mono:
  "refs_known K child col parent tr \<Longrightarrow> set K \<subseteq> set K' \<Longrightarrow>
   refs_known K' child col parent tr"
  unfolding refs_known_def by (simp add: subset_iff) blast

lemma refs_known_other:
  assumes "\<forall>e \<in> set tr. \<forall>t w. written e = Some (t, w) \<longrightarrow> t \<noteq> child"
  shows "refs_known K child col parent tr"
  using assms unfolding refs_known_def by (metis nth_mem)

lemma refs_known_single:
  assumes "\<forall>w. written e = Some (child, w) \<longrightarrow> attr w col \<in> set K"
  shows "refs_known K child col parent [e]"
  using assms unfolding refs_known_def by simp

lemma refs_known_Nil: "refs_known K child col parent []"
  by (simp add: refs_known_def)

text \<open>Appending events that send no row.\<close>

lemma refs_known_snoc_silent:
  assumes "refs_known K child col parent tr" and "written e = None"
  shows "refs_known K child col parent (tr @ [e])"
proof (rule refs_known_append [OF assms(1)])
  show "refs_known (K @ stored_ids parent tr) child col parent [e]"
    using assms(2) by (simp add: refs_known_single)
qed

subsection \<open>The trace of upsert\<close>

lemma upsert_trace:
  fixes s :: "('f, 'd) session"
  shows "\<exists>seg. trace (fst (upsert s m data keys)) = trace s @ seg
     \<and> (\<forall>e \<in> set seg. \<forall>t w. written e = Some (t, w) \<longrightarrow>
           t = tablename m \<and> (\<forall>c. c \<noteq> ''id'' \<and> data c \<noteq> None \<longrightarrow> attr w c = attr data c))
     \<and> (\<forall>r'. snd (upsert s m data keys) = Inr (Some r') \<longrightarrow>
           attr r' ''id'' \<in> set (stored_ids (tablename m) seg))"
proof (cases "key_fields_of data keys")
  case (Inl e)
  then have "upsert s m data keys = (s, Inl e)" by (simp add: upsert_def)
  then show ?thesis by simp
next
  case (Inr key_fields)
  note kf = this
  show ?thesis
  proof (cases "construct m data")
    case (Inl e)
    then have "upsert s m data keys = (s, Inl e)" using kf by (simp add: upsert_def)
    then show ?thesis by simp
  next
    case (Inr inst)
    note c = this
    have instc: "attr (if attr inst ''id'' = VNone then inst(''id'' \<mapsto> VInt n) else inst) k
        = attr data k" if "k \<noteq> ''id''" for k n
      using that attr_construct [OF c, of k] by (simp add: attr_upd)
    show ?thesis
    proof (cases rule: session_insert_cases [of s m inst])
      case (ok s1 new)
      note n = session_insert_Inr [OF ok]
      have up: "upsert s m data keys = (session_commit s1, Inr (Some new))"
        by (rule upsert_inserted [OF kf c ok])
      have tr: "trace (session_commit s1) = trace s @ [EvInsert (tablename m) new, EvCommit]"
        using n(3) by (simp add: session_commit_def)
      have "\<forall>c. c \<noteq> ''id'' \<and> data c \<noteq> None \<longrightarrow> attr new c = attr data c"
        using n(1) instc by simp
      then show ?thesis
        using up tr by (simp add: stored_ids_def)
    next
      case (failed s1 v)
      from session_insert_Inl [OF failed] obtain new where
        new: "new = (if attr inst ''id'' = VNone
                  then inst(''id'' \<mapsto> VInt (next_id (working s (tablename m)))) else inst)"
        and s1: "s1 = s\<lparr>trace := trace s @ [EvInsertFailed (tablename m) new v]\<rparr>"
        by auto
      have newc: "\<forall>c. c \<noteq> ''id'' \<and> data c \<noteq> None \<longrightarrow> attr new c = attr data c"
        using new instc by simp
      note up = upsert_conflict [OF kf c failed]
      show ?thesis
      proof (cases rule: query_first_cases [of "session_rollback s1" m key_fields])
        case (none s2)
        have tr2: "trace s2 = trace s @ [EvInsertFailed (tablename m) new v, EvRollback,
            EvQuery (tablename m) key_fields None]"
          using query_first_None(2) [OF none] s1 by (simp add: session_rollback_def)
        show ?thesis
        proof (cases "data = Map.empty")
          case True
          then have "upsert s m data keys = (session_commit s2, Inr None)"
            using up none by simp
          moreover have "trace (session_commit s2) = trace s @
              [EvInsertFailed (tablename m) new v, EvRollback,
               EvQuery (tablename m) key_fields None, EvCommit]"
            using tr2 by (simp add: session_commit_def)
          ultimately show ?thesis using newc by simp
        next
          case False
          then have "upsert s m data keys = (s2, Inl AttributeError)"
            using up none by simp
          then show ?thesis using tr2 newc by simp
        qed
      next
        case (found s2 i r)
        have tr2: "trace s2 = trace s @ [EvInsertFailed (tablename m) new v, EvRollback,
            EvQuery (tablename m) key_fields (Some r)]"
          using query_first_Some(4) [OF found] s1 by (simp add: session_rollback_def)
        have updc: "\<forall>c. c \<noteq> ''id'' \<and> data c \<noteq> None \<longrightarrow> attr (r ++ data) c = attr data c"
          by (simp add: attr_map_add)
        obtain s3 res where u: "session_update s2 m i (r ++ data) = (s3, res)"
          by (cases "session_update s2 m i (r ++ data)")
        show ?thesis
        proof (cases res)
          case (Inl e)
          from session_update_Inl [OF u [unfolded Inl]] obtain ev where
            s3: "s3 = s2\<lparr>trace := trace s2 @ [ev]\<rparr>"
            and ev: "written ev = Some (tablename m, r ++ data)" "stored ev = None"
            by auto
          have "upsert s m data keys = (s3, Inl e)"
            using up found u Inl by simp
          moreover have "trace s3 = trace s @ [EvInsertFailed (tablename m) new v, EvRollback,
              EvQuery (tablename m) key_fields (Some r), ev]"
            using s3 tr2 by simp
          ultimately show ?thesis using newc updc ev by simp
        next
          case (Inr r')
          note us = session_update_Inr [OF u [unfolded Inr]]
          have "upsert s m data keys = (session_commit s3, Inr (Some r'))"
            using up found u Inr by simp
          moreover have "trace (session_commit s3) = trace s @
              [EvInsertFailed (tablename m) new v, EvRollback,
               EvQuery (tablename m) key_fields (Some r),
               EvUpdate (tablename m) r', EvCommit]"
            using us tr2 by (simp add: session_commit_def)
          ultimately show ?thesis using newc updc us(1) by (simp add: stored_ids_def)
        qed
      qed
    next
      case (refused s1 t p)
      from session_insert_refused [OF refused] obtain new where
        new: "new = (if attr inst ''id'' = VNone
                  then inst(''id'' \<mapsto> VInt (next_id (working s (tablename m)))) else inst)"
        and s1: "s1 = s\<lparr>trace := trace s @ [EvInsertRefused (tablename m) new]\<rparr>"
        by auto
      have newc: "\<forall>c. c \<noteq> ''id'' \<and> data c \<noteq> None \<longrightarrow> attr new c = attr data c"
        using new instc by simp
      have "upsert s m data keys = (s1, Inl (DataError t p))"
        by (rule upsert_refused [OF kf c refused])
      then show ?thesis using s1 newc by simp
    qed
  qed
qed

text \<open>An upsert on another table sends no row to \<open>child\<close>.\<close>

lemma upsert_trace_other:
  fixes s :: "('f, 'd) session"
  assumes "tablename m \<noteq> child"
  shows "\<exists>seg. trace (fst (upsert s m data keys)) = trace s @ seg
     \<and> refs_known K child col parent seg
     \<and> (\<forall>r'. snd (upsert s m data keys) = Inr (Some r') \<longrightarrow>
           attr r' ''id'' \<in> set (stored_ids (tablename m) seg))"
proof -
  from upsert_trace [of s m data keys] obtain seg where
    t: "trace (fst (upsert s m data keys)) = trace s @ seg"
    and w: "\<forall>e \<in> set seg. \<forall>t w. written e = Some (t, w) \<longrightarrow> t = tablename m"
    and r: "\<forall>r'. snd (upsert s m data keys) = Inr (Some r') \<longrightarrow>
           attr r' ''id'' \<in> set (stored_ids (tablename m) seg)"
    by blast
  have "refs_known K child col parent seg"
    by (rule refs_known_other) (use w assms in blast)
  then show ?thesis using t r by blast
qed

text \<open>An upsert on \<open>child\<close> whose payload holds the reference.\<close>

lemma upsert_trace_child:
  fixes s :: "('f, 'd) session"
  assumes "col \<noteq> ''id''" and "data col = Some v" and "v \<in> set K"
  shows "\<exists>seg. trace (fst (upsert s m data keys)) = trace s @ seg
     \<and> refs_known K child col parent seg"
proof -
  from upsert_trace [of s m data keys] obtain seg where
    t: "trace (fst (upsert s m data keys)) = trace s @ seg"
    and w: "\<forall>e \<in> set seg. \<forall>t w. written e = Some (t, w) \<longrightarrow>
           (\<forall>c. c \<noteq> ''id'' \<and> data c \<noteq> None \<longrightarrow> attr w c = attr data c)"
    by blast
  have "refs_known K child col parent seg"
    unfolding refs_known_def
  proof (intro allI impI)
    fix j w' assume j: "j < length seg" and wr: "written (seg ! j) = Some (child, w')"
    have "attr w' col = attr data col"
      using w j wr assms(1,2) by (metis nth_mem option.distinct(1))
    then show "attr w' col \<in> set (K @ stored_ids parent (take j seg))"
      using assms(2,3) by (simp add: attr_def)
  qed
  then show ?thesis using t by blast
qed

lemma session_insert_trace:
  fixes s :: "('f, 'd) session"
  shows "\<exists>e new. trace (fst (session_insert s m inst)) = trace s @ [e]
     \<and> written e = Some (tablename m, new)
     \<and> (\<forall>c. c \<noteq> ''id'' \<longrightarrow> attr new c = attr inst c)"
proof (cases rule: session_insert_cases [of s m inst])
  case (ok s1 new)
  note n = session_insert_Inr [OF ok]
  have "trace (fst (session_insert s m inst)) = trace s @ [EvInsert (tablename m) new]"
    using ok n(3) by simp
  moreover have "\<forall>c. c \<noteq> ''id'' \<longrightarrow> attr new c = attr inst c"
    using n(1) by (simp add: attr_upd)
  ultimately show ?thesis by (intro exI [of _ "EvInsert (tablename m) new"] exI [of _ new]) simp
next
  case (failed s1 v)
  from session_insert_Inl [OF failed] obtain new where
    new: "new = (if attr inst ''id'' = VNone
                  then inst(''id'' \<mapsto> VInt (next_id (working s (tablename m)))) else inst)"
    and s1: "s1 = s\<lparr>trace := trace s @ [EvInsertFailed (tablename m) new v]\<rparr>"
    by auto
  have "trace (fst (session_insert s m inst)) = trace s @ [EvInsertFailed (tablename m) new v]"
    using failed s1 by simp
  moreover have "\<forall>c. c \<noteq> ''id'' \<longrightarrow> attr new c = attr inst c"
    using new by (simp add: attr_upd)
  ultimately show ?thesis
    by (intro exI [of _ "EvInsertFailed (tablename m) new v"] exI [of _ new]) simp
next
  case (refused s1 t p)
  from session_insert_refused [OF refused] obtain new where
    new: "new = (if attr inst ''id'' = VNone
                  then inst(''id'' \<mapsto> VInt (next_id (working s (tablename m)))) else inst)"
    and s1: "s1 = s\<lparr>trace := trace s @ [EvInsertRefused (tablename m) new]\<rparr>"
    by auto
  have "trace (fst (session_insert s m inst)) = trace s @ [EvInsertRefused (tablename m) new]"
    using refused s1 by simp
  moreover have "\<forall>c. c \<noteq> ''id'' \<longrightarrow> attr new c = attr inst c"
    using new by (simp add: attr_upd)
  ultimately show ?thesis
    by (intro exI [of _ "EvInsertRefused (tablename m) new"] exI [of _ new]) simp
qed

lemma new_trade_refs:
  assumes "new_trade stock_id insider_id trade = Inr inst"
  shows "attr inst ''stock_id'' = stock_id" and "attr inst ''insider_id'' = insider_id"
proof -
  have c: "construct Trade (trade(''stock_id'' \<mapsto> stock_id, ''insider_id'' \<mapsto> insider_id))
      = Inr inst"
    using assms by (simp add: new_trade_def split: if_splits)
  show "attr inst ''stock_id'' = stock_id" and "attr inst ''insider_id'' = insider_id"
    using attr_construct [OF c] by (simp_all add: attr_def)
qed

lemma store_trade_trace:
  fixes s :: "('f, 'd) session"
  shows "\<exists>seg. trace (fst (store_trade s stock trade)) = trace s @ seg
     \<and> refs_known [] ''trade'' ''insider_id'' ''insider'' seg
     \<and> refs_known (known_id stock) ''trade'' ''stock_id'' ''stock'' seg"
proof -
  have nil: "\<exists>seg. trace s = trace s @ seg
     \<and> refs_known [] ''trade'' ''insider_id'' ''insider'' seg
     \<and> refs_known (known_id stock) ''trade'' ''stock_id'' ''stock'' seg"
    by (simp add: refs_known_Nil)
  show ?thesis
  proof (cases "dict_pop trade ''insider''")
    case (Inl e)
    then show ?thesis using nil by (simp add: store_trade_def)
  next
    case (Inr p1)
    obtain name trade1 where p1: "dict_pop trade ''insider'' = Inr (name, trade1)"
      using Inr by (cases p1) simp
    show ?thesis
    proof (cases "dict_pop trade1 ''relation''")
      case (Inl e)
      then show ?thesis using nil p1 by (simp add: store_trade_def)
    next
      case (Inr p2)
      obtain relation trade2 where p2: "dict_pop trade1 ''relation'' = Inr (relation, trade2)"
        using Inr by (cases p2) simp
      let ?data = "map_of [(''name'', name), (''relation'', relation)]"
      obtain s1 res where up: "upsert s Insider ?data [''name''] = (s1, res)"
        by (cases "upsert s Insider ?data [''name'']")
      have ti: "tablename Insider \<noteq> ''trade''" by (simp add: Insider_def)
      from upsert_trace_other [OF ti, of s ?data "[''name'']" "[]" "''insider_id''" "''insider''"]
      obtain seg where t1: "trace s1 = trace s @ seg"
        and a1: "refs_known [] ''trade'' ''insider_id'' ''insider'' seg"
        and st: "\<forall>r'. res = Inr (Some r') \<longrightarrow> attr r' ''id'' \<in> set (stored_ids ''insider'' seg)"
        using up by (auto simp: Insider_def)
      from upsert_trace_other [OF ti, of s ?data "[''name'']" "known_id stock" "''stock_id''"
          "''stock''"]
      have b1: "refs_known (known_id stock) ''trade'' ''stock_id'' ''stock'' seg"
        using up t1 by auto
      have only: "\<exists>seg. trace s1 = trace s @ seg
         \<and> refs_known [] ''trade'' ''insider_id'' ''insider'' seg
         \<and> refs_known (known_id stock) ''trade'' ''stock_id'' ''stock'' seg"
        using t1 a1 b1 by blast
      show ?thesis
      proof (cases res)
        case (Inl e)
        then show ?thesis using only p1 p2 up by (simp add: store_trade_def)
      next
        case (Inr insider)
        note res = this
        show ?thesis
        proof (cases "instance_id stock")
          case (Inl e)
          then show ?thesis using only p1 p2 up res by (simp add: store_trade_def)
        next
          case (Inr stock_id)
          note sid = this
          show ?thesis
          proof (cases "instance_id insider")
            case (Inl e)
            then show ?thesis using only p1 p2 up res sid by (simp add: store_trade_def)
          next
            case (Inr insider_id)
            note iid = this
            show ?thesis
            proof (cases "new_trade stock_id insider_id trade2")
              case (Inl e)
              then show ?thesis
                using only p1 p2 up res sid iid by (simp add: store_trade_def)
            next
              case (Inr inst)
              note nt = new_trade_refs [OF Inr]
              obtain s2 r2 where ins: "session_insert s1 Trade inst = (s2, r2)"
                by (cases "session_insert s1 Trade inst")
              from session_insert_trace [of s1 Trade inst] obtain e new where
                t2: "trace s2 = trace s1 @ [e]"
                and we: "written e = Some (tablename Trade, new)"
                and nc: "\<forall>c. c \<noteq> ''id'' \<longrightarrow> attr new c = attr inst c"
                using ins by auto
              have ki: "insider_id \<in> set (stored_ids ''insider'' seg)"
              proof -
                obtain r' where "insider = Some r'" and "insider_id = attr r' ''id''"
                  using iid by (auto simp: instance_id_def split: option.splits)
                then show ?thesis using st res by simp
              qed
              have ks: "stock_id \<in> set (known_id stock)"
                using sid by (auto simp: instance_id_def known_id_def split: option.splits)
              have a2: "refs_known [] ''trade'' ''insider_id'' ''insider'' (seg @ [e])"
              proof (rule refs_known_append [OF a1])
                show "refs_known ([] @ stored_ids ''insider'' seg) ''trade'' ''insider_id''
                    ''insider'' [e]"
                  using we nc nt(2) ki by (simp add: refs_known_single)
              qed
              have b2: "refs_known (known_id stock) ''trade'' ''stock_id'' ''stock'' (seg @ [e])"
              proof (rule refs_known_append [OF b1])
                show "refs_known (known_id stock @ stored_ids ''stock'' seg) ''trade''
                    ''stock_id'' ''stock'' [e]"
                  using we nc nt(1) ks by (simp add: refs_known_single)
              qed
              show ?thesis
              proof (cases r2)
                case (Inl err)
                then have "store_trade s stock trade = (s2, Inl err)"
                  using p1 p2 up res sid iid Inr ins by (simp add: store_trade_def)
                then show ?thesis using t1 t2 a2 b2 by simp
              next
                case (Inr row)
                have "store_trade s stock trade = (session_commit s2, Inr ())"
                  using p1 p2 up res sid iid \<open>new_trade stock_id insider_id trade2 = Inr inst\<close>
                    ins Inr
                  by (simp add: store_trade_def)
                moreover have "trace (session_commit s2) = trace s @ (seg @ [e]) @ [EvCommit]"
                  using t1 t2 by (simp add: session_commit_def)
                moreover have "refs_known [] ''trade'' ''insider_id'' ''insider''
                    ((seg @ [e]) @ [EvCommit])"
                  by (rule refs_known_snoc_silent [OF a2]) simp
                moreover have "refs_known (known_id stock) ''trade'' ''stock_id'' ''stock''
                    ((seg @ [e]) @ [EvCommit])"
                  by (rule refs_known_snoc_silent [OF b2]) simp
                ultimately show ?thesis by (metis fst_conv)
              qed
            qed
          qed
        qed
      qed
    qed
  qed
qed

lemma trades_store_loop_trace:
  fixes s :: "('f, 'd) session"
  shows "\<exists>seg. trace (fst (trades_store_loop s stock trades)) = trace s @ seg
     \<and> refs_known [] ''trade'' ''insider_id'' ''insider'' seg
     \<and> refs_known (known_id stock) ''trade'' ''stock_id'' ''stock'' seg"
proof (induction trades arbitrary: s)
  case Nil
  show ?case by (simp add: refs_known_Nil)
next
  case (Cons trade trades)
  obtain s1 res where st: "store_trade s stock trade = (s1, res)"
    by (cases "store_trade s stock trade")
  from store_trade_trace [of s stock trade] obtain seg1 where
    t1: "trace s1 = trace s @ seg1"
    and a1: "refs_known [] ''trade'' ''insider_id'' ''insider'' seg1"
    and b1: "refs_known (known_id stock) ''trade'' ''stock_id'' ''stock'' seg1"
    using st by auto
  show ?case
  proof (cases res)
    case (Inl e)
    then have "trades_store_loop s stock (trade # trades) = (s1, Inl e)"
      using st by simp
    then show ?thesis using t1 a1 b1 by auto
  next
    case (Inr u)
    then have l: "trades_store_loop s stock (trade # trades) = trades_store_loop s1 stock trades"
      using st by simp
    from Cons.IH [of s1] obtain seg2 where
      t2: "trace (fst (trades_store_loop s1 stock trades)) = trace s1 @ seg2"
      and a2: "refs_known [] ''trade'' ''insider_id'' ''insider'' seg2"
      and b2: "refs_known (known_id stock) ''trade'' ''stock_id'' ''stock'' seg2"
      by blast
    have a: "refs_known [] ''trade'' ''insider_id'' ''insider'' (seg1 @ seg2)"
      by (rule refs_known_append [OF a1]) (rule refs_known_mono [OF a2], simp)
    have b: "refs_known (known_id stock) ''trade'' ''stock_id'' ''stock'' (seg1 @ seg2)"
      by (rule refs_known_append [OF b1]) (rule refs_known_mono [OF b2], simp)
    show ?thesis using l t1 t2 a b by auto
  qed
qed

lemma quotes_loop_trace:
  fixes s :: "('f, 'd) session"
  shows "\<exists>seg. trace (fst (quotes_loop s stock history)) = trace s @ seg
     \<and> refs_known (known_id stock) ''quote'' ''stock_id'' ''stock'' seg"
proof (induction history arbitrary: s)
  case Nil
  show ?case by (simp add: refs_known_Nil)
next
  case (Cons item history)
  show ?case
  proof (cases "instance_id stock")
    case (Inl e)
    then show ?thesis by (simp add: refs_known_Nil)
  next
    case (Inr stock_id)
    then have ks: "stock_id \<in> set (known_id stock)"
      by (auto simp: instance_id_def known_id_def split: option.splits)
    let ?data = "item(''stock_id'' \<mapsto> stock_id)"
    obtain s1 res where up: "upsert s Quote ?data [''date'', ''stock_id''] = (s1, res)"
      by (cases "upsert s Quote ?data [''date'', ''stock_id'']")
    have "\<exists>seg. trace (fst (upsert s Quote ?data [''date'', ''stock_id''])) = trace s @ seg
       \<and> refs_known (known_id stock) ''quote'' ''stock_id'' ''stock'' seg"
      by (rule upsert_trace_child [OF _ _ ks]) simp_all
    then obtain seg1 where t1: "trace s1 = trace s @ seg1"
      and b1: "refs_known (known_id stock) ''quote'' ''stock_id'' ''stock'' seg1"
      using up by auto
    show ?thesis
    proof (cases res)
      case (Inl e)
      then have "quotes_loop s stock (item # history) = (s1, Inl e)"
        using Inr up by simp
      then show ?thesis using t1 b1 by auto
    next
      case (Inr quote)
      then have l: "quotes_loop s stock (item # history) = quotes_loop s1 stock history"
        using \<open>instance_id stock = Inr stock_id\<close> up by simp
      from Cons.IH [of s1] obtain seg2 where
        t2: "trace (fst (quotes_loop s1 stock history)) = trace s1 @ seg2"
        and b2: "refs_known (known_id stock) ''quote'' ''stock_id'' ''stock'' seg2"
        by blast
      have b: "refs_known (known_id stock) ''quote'' ''stock_id'' ''stock'' (seg1 @ seg2)"
        by (rule refs_known_append [OF b1]) (rule refs_known_mono [OF b2], simp)
      show ?thesis using l t1 t2 b by auto
    qed
  qed
qed

text \<open>The upsert of the stock, at the head of both tasks.\<close>

lemma upsert_stock_trace:
  fixes s :: "('f, 'd) session"
  assumes "child \<noteq> ''stock''"
    and "upsert s Stock (map_of [(''ticker'', VStr ticker)]) [''ticker''] = (s1, res)"
  shows "\<exists>seg. trace s1 = trace s @ seg
     \<and> refs_known [] child col parent seg
     \<and> (\<forall>stock. res = Inr stock \<longrightarrow> set (known_id stock) \<subseteq> set (stored_ids ''stock'' seg))"
proof -
  have ts: "tablename Stock \<noteq> child" using assms(1) by (auto simp: Stock_def)
  from upsert_trace_other [OF ts, of s "map_of [(''ticker'', VStr ticker)]" "[''ticker'']" "[]"
      col parent]
  obtain seg where t: "trace s1 = trace s @ seg"
    and a: "refs_known [] child col parent seg"
    and st: "\<forall>r'. res = Inr (Some r') \<longrightarrow> attr r' ''id'' \<in> set (stored_ids ''stock'' seg)"
    using assms(2) by (auto simp: Stock_def)
  have "set (known_id stock) \<subseteq> set (stored_ids ''stock'' seg)" if "res = Inr stock" for stock
    using st that by (cases stock) (simp_all add: known_id_def)
  then show ?thesis using t a by blast
qed

lemma fetch_trades_trace:
  fixes s :: "('f, 'd) session"
  shows "\<exists>seg. trace (fst (fetch_trades lib s ticker page)) = trace s @ seg
     \<and> stored_before ''trade'' ''insider_id'' ''insider'' seg
     \<and> stored_before ''trade'' ''stock_id'' ''stock'' seg"
proof (cases "parse_trades lib ticker page")
  case (Inl e)
  then show ?thesis by (simp add: fetch_trades_def stored_before_def refs_known_Nil)
next
  case (Inr tw)
  obtain trades warnings where pt: "parse_trades lib ticker page = Inr (trades, warnings)"
    using Inr by (cases tw) simp
  obtain s1 res where up: "upsert s Stock (map_of [(''ticker'', VStr ticker)]) [''ticker'']
      = (s1, res)"
    by (cases "upsert s Stock (map_of [(''ticker'', VStr ticker)]) [''ticker'']")
  from upsert_stock_trace [OF _ up, of "''trade''" "''insider_id''" "''insider''"]
  obtain seg1 where t1: "trace s1 = trace s @ seg1"
    and a1: "refs_known [] ''trade'' ''insider_id'' ''insider'' seg1"
    and k1: "\<forall>stock. res = Inr stock \<longrightarrow> set (known_id stock) \<subseteq> set (stored_ids ''stock'' seg1)"
    by auto
  from upsert_stock_trace [OF _ up, of "''trade''" "''stock_id''" "''stock''"]
  have b1: "refs_known [] ''trade'' ''stock_id'' ''stock'' seg1"
    using t1 by auto
  show ?thesis
  proof (cases res)
    case (Inl e)
    then have "fetch_trades lib s ticker page = (session_rollback s1, warnings, Inl e)"
      using pt up by (simp add: fetch_trades_def)
    moreover have "trace (session_rollback s1) = trace s @ seg1 @ [EvRollback]"
      using t1 by (simp add: session_rollback_def)
    moreover have "refs_known [] ''trade'' ''insider_id'' ''insider'' (seg1 @ [EvRollback])"
      by (rule refs_known_snoc_silent [OF a1]) simp
    moreover have "refs_known [] ''trade'' ''stock_id'' ''stock'' (seg1 @ [EvRollback])"
      by (rule refs_known_snoc_silent [OF b1]) simp
    ultimately show ?thesis by (simp add: stored_before_def)
  next
    case (Inr stock)
    obtain s2 r2 where l: "trades_store_loop s1 stock trades = (s2, r2)"
      by (cases "trades_store_loop s1 stock trades")
    from trades_store_loop_trace [of s1 stock trades] obtain seg2 where
      t2: "trace s2 = trace s1 @ seg2"
      and a2: "refs_known [] ''trade'' ''insider_id'' ''insider'' seg2"
      and b2: "refs_known (known_id stock) ''trade'' ''stock_id'' ''stock'' seg2"
      using l by auto
    have a: "refs_known [] ''trade'' ''insider_id'' ''insider'' (seg1 @ seg2)"
      by (rule refs_known_append [OF a1]) (rule refs_known_mono [OF a2], simp)
    have b: "refs_known [] ''trade'' ''stock_id'' ''stock'' (seg1 @ seg2)"
      by (rule refs_known_append [OF b1]) (rule refs_known_mono [OF b2], use k1 Inr in simp)
    show ?thesis
    proof (cases r2)
      case (Inl e)
      then have "fetch_trades lib s ticker page = (session_rollback s2, warnings, Inl e)"
        using pt up Inr l by (simp add: fetch_trades_def)
      moreover have "trace (session_rollback s2) = trace s @ (seg1 @ seg2) @ [EvRollback]"
        using t1 t2 by (simp add: session_rollback_def)
      moreover have "refs_known [] ''trade'' ''insider_id'' ''insider''
          ((seg1 @ seg2) @ [EvRollback])"
        by (rule refs_known_snoc_silent [OF a]) simp
      moreover have "refs_known [] ''trade'' ''stock_id'' ''stock''
          ((seg1 @ seg2) @ [EvRollback])"
        by (rule refs_known_snoc_silent [OF b]) simp
      ultimately show ?thesis unfolding stored_before_def by (metis fst_conv)
    next
      case (Inr u)
      then have "fetch_trades lib s ticker page
          = (s2, warnings, Inr (TradesCollected (length trades) ticker page))"
        using pt up \<open>res = Inr stock\<close> l by (simp add: fetch_trades_def)
      moreover have "trace s2 = trace s @ (seg1 @ seg2)" using t1 t2 by simp
      ultimately show ?thesis using a b unfolding stored_before_def by (metis fst_conv)
    qed
  qed
qed

lemma fetch_history_trace:
  fixes s :: "('f, 'd) session"
  shows "\<exists>seg. trace (fst (fetch_history lib s ticker)) = trace s @ seg
     \<and> stored_before ''quote'' ''stock_id'' ''stock'' seg"
proof (cases "parse_history lib ticker")
  case (Inl e)
  then show ?thesis by (simp add: fetch_history_def stored_before_def refs_known_Nil)
next
  case (Inr hw)
  obtain history warnings where ph: "parse_history lib ticker = Inr (history, warnings)"
    using Inr by (cases hw) simp
  obtain s1 res where up: "upsert s Stock (map_of [(''ticker'', VStr ticker)]) [''ticker'']
      = (s1, res)"
    by (cases "upsert s Stock (map_of [(''ticker'', VStr ticker)]) [''ticker'']")
  from upsert_stock_trace [OF _ up, of "''quote''" "''stock_id''" "''stock''"]
  obtain seg1 where t1: "trace s1 = trace s @ seg1"
    and b1: "refs_known [] ''quote'' ''stock_id'' ''stock'' seg1"
    and k1: "\<forall>stock. res = Inr stock \<longrightarrow> set (known_id stock) \<subseteq> set (stored_ids ''stock'' seg1)"
    by auto
  show ?thesis
  proof (cases res)
    case (Inl e)
    then have "fetch_history lib s ticker = (session_rollback s1, warnings, Inl e)"
      using ph up by (simp add: fetch_history_def)
    moreover have "trace (session_rollback s1) = trace s @ seg1 @ [EvRollback]"
      using t1 by (simp add: session_rollback_def)
    moreover have "refs_known [] ''quote'' ''stock_id'' ''stock'' (seg1 @ [EvRollback])"
      by (rule refs_known_snoc_silent [OF b1]) simp
    ultimately show ?thesis by (simp add: stored_before_def)
  next
    case (Inr stock)
    obtain s2 r2 where l: "quotes_loop s1 stock history = (s2, r2)"
      by (cases "quotes_loop s1 stock history")
    from quotes_loop_trace [of s1 stock history] obtain seg2 where
      t2: "trace s2 = trace s1 @ seg2"
      and b2: "refs_known (known_id stock) ''quote'' ''stock_id'' ''stock'' seg2"
      using l by auto
    have b: "refs_known [] ''quote'' ''stock_id'' ''stock'' (seg1 @ seg2)"
      by (rule refs_known_append [OF b1]) (rule refs_known_mono [OF b2], use k1 Inr in simp)
    show ?thesis
    proof (cases r2)
      case (Inl e)
      then have "fetch_history lib s ticker = (session_rollback s2, warnings, Inl e)"
        using ph up Inr l by (simp add: fetch_history_def)
      moreover have "trace (session_rollback s2) = trace s @ (seg1 @ seg2) @ [EvRollback]"
        using t1 t2 by (simp add: session_rollback_def)
      moreover have "refs_known [] ''quote'' ''stock_id'' ''stock''
          ((seg1 @ seg2) @ [EvRollback])"
        by (rule refs_known_snoc_silent [OF b]) simp
      ultimately show ?thesis unfolding stored_before_def by (metis fst_conv)
    next
      case (Inr u)
      then have "fetch_history lib s ticker
          = (s2, warnings, Inr (HistoryCollected (length history) ticker))"
        using ph up \<open>res = Inr stock\<close> l by (simp add: fetch_history_def)
      moreover have "trace s2 = trace s @ (seg1 @ seg2)" using t1 t2 by simp
      ultimately show ?thesis using b unfolding stored_before_def by (metis fst_conv)
    qed
  qed
qed

lemma stored_ids_take:
  assumes "v \<in> set (stored_ids parent (take j tr))"
  shows "\<exists>i < j. \<exists>p. stored (tr ! i) = Some (parent, p) \<and> attr p ''id'' = v"
proof -
  from assms obtain e where e: "e \<in> set (take j tr)"
    and f: "(case stored e of None \<Rightarrow> None
             | Some (t, p) \<Rightarrow> if t = parent then Some (attr p ''id'') else None) = Some v"
    by (auto simp: stored_ids_def set_map_filter)
  from e obtain i where i: "i < length (take j tr)" and ei: "take j tr ! i = e"
    by (auto simp: in_set_conv_nth)
  have ij: "i < j" using i by simp
  then have "tr ! i = e" using ei i by simp
  moreover obtain p where "stored e = Some (parent, p)" and "attr p ''id'' = v"
    using f by (auto split: option.splits if_splits)
  ultimately show ?thesis using ij by blast
qed

lemma stored_beforeD:
  assumes "stored_before child col parent tr" and "j < length tr"
    and "written (tr ! j) = Some (child, w)"
  shows "\<exists>i < j. \<exists>p. stored (tr ! i) = Some (parent, p) \<and> attr p ''id'' = attr w col"
proof -
  have "attr w col \<in> set (stored_ids parent (take j tr))"
    using assms by (simp add: stored_before_def refs_known_def)
  then show ?thesis by (rule stored_ids_take)
qed

text \<open>
  C9. In the events a trade task adds to the trace of its session, every row sent to the
  \<^verbatim>\<open>trade\<close> table comes after an event that stored the insider whose \<^verbatim>\<open>id\<close> the row
  holds as \<^verbatim>\<open>insider_id\<close>, and after one that stored the stock whose \<^verbatim>\<open>id\<close> it holds
  as \<^verbatim>\<open>stock_id\<close>. In the events of a history task, every row sent to the \<^verbatim>\<open>quote\<close>
  table comes after an event that stored the stock it refers to.
\<close>

theorem dependency_order:
  fixes s :: "('f, 'd) session"
  shows
  "(\<exists>seg. trace (fst (fetch_trades lib s ticker page)) = trace s @ seg \<and>
      (\<forall>j < length seg. \<forall>w. written (seg ! j) = Some (''trade'', w) \<longrightarrow>
         (\<exists>i < j. \<exists>p. stored (seg ! i) = Some (''insider'', p)
                     \<and> attr p ''id'' = attr w ''insider_id'')
       \<and> (\<exists>i < j. \<exists>p. stored (seg ! i) = Some (''stock'', p)
                     \<and> attr p ''id'' = attr w ''stock_id'')))
   \<and> (\<exists>seg. trace (fst (fetch_history lib s ticker)) = trace s @ seg \<and>
      (\<forall>j < length seg. \<forall>w. written (seg ! j) = Some (''quote'', w) \<longrightarrow>
         (\<exists>i < j. \<exists>p. stored (seg ! i) = Some (''stock'', p)
                     \<and> attr p ''id'' = attr w ''stock_id'')))"
proof
  from fetch_trades_trace [of lib s ticker page] obtain seg where
    t: "trace (fst (fetch_trades lib s ticker page)) = trace s @ seg"
    and a: "stored_before ''trade'' ''insider_id'' ''insider'' seg"
    and b: "stored_before ''trade'' ''stock_id'' ''stock'' seg"
    by blast
  show "\<exists>seg. trace (fst (fetch_trades lib s ticker page)) = trace s @ seg \<and>
      (\<forall>j < length seg. \<forall>w. written (seg ! j) = Some (''trade'', w) \<longrightarrow>
         (\<exists>i < j. \<exists>p. stored (seg ! i) = Some (''insider'', p)
                     \<and> attr p ''id'' = attr w ''insider_id'')
       \<and> (\<exists>i < j. \<exists>p. stored (seg ! i) = Some (''stock'', p)
                     \<and> attr p ''id'' = attr w ''stock_id''))"
    using t stored_beforeD [OF a] stored_beforeD [OF b] by (intro exI [of _ seg]) simp
next
  from fetch_history_trace [of lib s ticker] obtain seg where
    t: "trace (fst (fetch_history lib s ticker)) = trace s @ seg"
    and b: "stored_before ''quote'' ''stock_id'' ''stock'' seg"
    by blast
  show "\<exists>seg. trace (fst (fetch_history lib s ticker)) = trace s @ seg \<and>
      (\<forall>j < length seg. \<forall>w. written (seg ! j) = Some (''quote'', w) \<longrightarrow>
         (\<exists>i < j. \<exists>p. stored (seg ! i) = Some (''stock'', p)
                     \<and> attr p ''id'' = attr w ''stock_id''))"
    using t stored_beforeD [OF b] by (intro exI [of _ seg]) simp
qed

lemma example_trades_run:
  "map (\<lambda>e. map_option fst (written e))
     (trace (fst (fetch_trades
        (example_lib (example_trades_page ''/symbol/aapl/insider-trades?page=7''))
        empty_session (lit ''AAPL'') 1))) =
   [Some ''stock'', None, Some ''insider'', None, Some ''trade'', None]"
  by (simp add: fetch_trades_def parse_trades_def parse_page_def example_lib_def find_tag_def
      example_trades_page_def dom_find_def parse_table_def find_all_def strip_def
      is_space_def split_ws_def trade_item_def remove_commas_def numeral_text_def
      parse_trades_page_count_def store_defs empty_session_def Stock_def Insider_def Trade_def
      store_trade_def dict_pop_def instance_id_def new_trade_def)

lemma example_history_run:
  "map (\<lambda>e. map_option fst (written e))
     (trace (fst (fetch_history (example_lib example_history_page) empty_session (lit ''AAPL'')))) =
   [Some ''stock'', None, Some ''quote'', None]"
  by (simp add: fetch_history_def parse_history_def parse_page_def example_lib_def find_tag_def
      example_history_page_def dom_find_def parse_table_def find_all_def strip_def
      is_space_def history_item_def remove_commas_def numeral_text_def
      store_defs empty_session_def Stock_def Quote_def instance_id_def)

theorem dependency_order_witness:
  "(\<exists>seg j w i p.
      trace (fst (fetch_trades
        (example_lib (example_trades_page ''/symbol/aapl/insider-trades?page=7''))
        empty_session (lit ''AAPL'') 1)) = seg
    \<and> j < length seg \<and> written (seg ! j) = Some (''trade'', w)
    \<and> i < j \<and> stored (seg ! i) = Some (''insider'', p)
    \<and> attr p ''id'' = attr w ''insider_id'')
   \<and> (\<exists>seg j w i p.
      trace (fst (fetch_history (example_lib example_history_page) empty_session (lit ''AAPL''))) = seg
    \<and> j < length seg \<and> written (seg ! j) = Some (''quote'', w)
    \<and> i < j \<and> stored (seg ! i) = Some (''stock'', p)
    \<and> attr p ''id'' = attr w ''stock_id'')"
proof
  let ?lib = "example_lib (example_trades_page ''/symbol/aapl/insider-trades?page=7'')"
  let ?tr = "trace (fst (fetch_trades ?lib empty_session (lit ''AAPL'') 1))"
  note run = example_trades_run
  have len: "length ?tr = 6" using arg_cong [OF run, of length] by simp
  have "map_option fst (written (?tr ! 4)) = Some ''trade''"
    using arg_cong [OF run, of "\<lambda>xs. xs ! 4"] len by simp
  then obtain w where w: "written (?tr ! 4) = Some (''trade'', w)" by auto
  from dependency_order [of ?lib empty_session "lit ''AAPL''" 1, THEN conjunct1]
  obtain seg where seg: "?tr = trace empty_session @ seg"
    and ord: "\<forall>j < length seg. \<forall>w. written (seg ! j) = Some (''trade'', w) \<longrightarrow>
         (\<exists>i < j. \<exists>p. stored (seg ! i) = Some (''insider'', p)
                     \<and> attr p ''id'' = attr w ''insider_id'')
       \<and> (\<exists>i < j. \<exists>p. stored (seg ! i) = Some (''stock'', p)
                     \<and> attr p ''id'' = attr w ''stock_id'')"
    by blast
  have eq: "seg = ?tr" using seg by (simp add: empty_session_def)
  have "\<exists>i < 4. \<exists>p. stored (?tr ! i) = Some (''insider'', p)
      \<and> attr p ''id'' = attr w ''insider_id''"
    using ord [rule_format, of 4 w] w len eq by simp
  then obtain i p where "i < 4" "stored (?tr ! i) = Some (''insider'', p)"
    "attr p ''id'' = attr w ''insider_id''" by blast
  then show "\<exists>seg j w i p. ?tr = seg
    \<and> j < length seg \<and> written (seg ! j) = Some (''trade'', w)
    \<and> i < j \<and> stored (seg ! i) = Some (''insider'', p)
    \<and> attr p ''id'' = attr w ''insider_id''"
    using w len by (intro exI [of _ ?tr] exI [of _ 4] exI [of _ w] exI [of _ i] exI [of _ p]) simp
next
  let ?lib = "example_lib example_history_page"
  let ?tr = "trace (fst (fetch_history ?lib empty_session (lit ''AAPL'')))"
  note run = example_history_run
  have len: "length ?tr = 4" using arg_cong [OF run, of length] by simp
  have "map_option fst (written (?tr ! 2)) = Some ''quote''"
    using arg_cong [OF run, of "\<lambda>xs. xs ! 2"] len by simp
  then obtain w where w: "written (?tr ! 2) = Some (''quote'', w)" by auto
  from dependency_order [of ?lib empty_session "lit ''AAPL''", THEN conjunct2]
  obtain seg where seg: "?tr = trace empty_session @ seg"
    and ord: "\<forall>j < length seg. \<forall>w. written (seg ! j) = Some (''quote'', w) \<longrightarrow>
         (\<exists>i < j. \<exists>p. stored (seg ! i) = Some (''stock'', p)
                     \<and> attr p ''id'' = attr w ''stock_id'')"
    by blast
  have eq: "seg = ?tr" using seg by (simp add: empty_session_def)
  have "\<exists>i < 2. \<exists>p. stored (?tr ! i) = Some (''stock'', p)
      \<and> attr p ''id'' = attr w ''stock_id''"
    using ord [rule_format, of 2 w] w len eq by simp
  then obtain i p where "i < 2" "stored (?tr ! i) = Some (''stock'', p)"
    "attr p ''id'' = attr w ''stock_id''" by blast
  then show "\<exists>seg j w i p. ?tr = seg
    \<and> j < length seg \<and> written (seg ! j) = Some (''quote'', w)
    \<and> i < j \<and> stored (seg ! i) = Some (''stock'', p)
    \<and> attr p ''id'' = attr w ''stock_id''"
    using w len by (intro exI [of _ ?tr] exI [of _ 2] exI [of _ w] exI [of _ i] exI [of _ p]) simp
qed


end
